theory Spec2Isabelle
  imports Complex_Main
begin

section \<open>The editor's data\<close>

text \<open>
  \<^verbatim>\<open>Gript.js\<close> is one script: module-level variables and event listeners that
  mutate them. The model keeps every variable the listeners read or write as a field of
  one record, and every listener as a function from the record to the record.

  The wheel listener makes the orbit radius grow geometrically, so the radius reaches
  the end of the range of a double within a session; it and the camera position
  computed from it are therefore JavaScript numbers with their infinities and NaN
  (\<open>jsnum\<close> below). The other numbers of the script (angles, pointer coordinates,
  window dimensions) are read as real numbers (\<^typ>\<open>real\<close>); for them the infinities,
  NaN and a division by zero (which is \<open>0\<close> in HOL) are outside this model.
  Rounding is not modelled anywhere. Array indices and the mode index are natural
  numbers; \<^verbatim>\<open>indexOf\<close> returns an \<^typ>\<open>int\<close> because it can be \<open>-1\<close>.

  Objects of the scene graph (\<^verbatim>\<open>THREE.Object3D\<close>) are identified by a number; their
  mutable properties live in maps from that number, so that two references to the same
  object see the same properties.
\<close>

type_synonym obj = nat

datatype kind = SceneRoot | Helper | Controls | Group | Mesh | LineSegments

datatype error = TypeError

subsection \<open>JavaScript numbers\<close>

text \<open>
  A number is a real, \<^verbatim>\<open>Infinity\<close>, \<^verbatim>\<open>-Infinity\<close> or \<^verbatim>\<open>NaN\<close>. A result beyond
  \<^verbatim>\<open>Number.MAX_VALUE\<close> is an infinity; any other result is kept exact (no rounding, no
  negative zero). \<open>js_add\<close>, \<open>js_sub\<close>, \<open>js_mul\<close> and \<open>js_div\<close> are the operators
  \<^verbatim>\<open>+\<close>, \<^verbatim>\<open>-\<close>, \<^verbatim>\<open>*\<close> and \<^verbatim>\<open>/\<close>; \<open>js_max\<close> is \<^verbatim>\<open>Math.max\<close>, which is NaN as soon as
  one argument is.
\<close>

datatype jsnum = Num real | PosInf | NegInf | NaN

definition MAX_VALUE :: real where
  "MAX_VALUE = (2 - 1 / 2 ^ 52) * 2 ^ 1023"

definition overflow :: "real \<Rightarrow> jsnum" where
  "overflow x = (if x > MAX_VALUE then PosInf else if x < - MAX_VALUE then NegInf else Num x)"

fun js_neg :: "jsnum \<Rightarrow> jsnum" where
  "js_neg (Num a) = Num (- a)"
| "js_neg PosInf = NegInf"
| "js_neg NegInf = PosInf"
| "js_neg NaN = NaN"

fun js_add :: "jsnum \<Rightarrow> jsnum \<Rightarrow> jsnum" where
  "js_add NaN y = NaN"
| "js_add x NaN = NaN"
| "js_add (Num a) (Num b) = overflow (a + b)"
| "js_add PosInf NegInf = NaN"
| "js_add NegInf PosInf = NaN"
| "js_add PosInf y = PosInf"
| "js_add x PosInf = PosInf"
| "js_add NegInf y = NegInf"
| "js_add x NegInf = NegInf"

definition js_sub :: "jsnum \<Rightarrow> jsnum \<Rightarrow> jsnum" where
  "js_sub x y = js_add x (js_neg y)"

text \<open>The sign of a number that is not NaN: \<open>1\<close>, \<open>-1\<close> or \<open>0\<close>.\<close>

fun js_sgn :: "jsnum \<Rightarrow> real" where
  "js_sgn (Num a) = sgn a"
| "js_sgn PosInf = 1"
| "js_sgn NegInf = - 1"
| "js_sgn NaN = 0"

fun js_mul :: "jsnum \<Rightarrow> jsnum \<Rightarrow> jsnum" where
  "js_mul NaN y = NaN"
| "js_mul x NaN = NaN"
| "js_mul (Num a) (Num b) = overflow (a * b)"
| "js_mul x y =
     (if js_sgn x * js_sgn y = 0 then NaN
      else if js_sgn x * js_sgn y > 0 then PosInf else NegInf)"

fun js_div :: "jsnum \<Rightarrow> jsnum \<Rightarrow> jsnum" where
  "js_div NaN y = NaN"
| "js_div x NaN = NaN"
| "js_div (Num a) (Num b) =
     (if b = 0 then (if a = 0 then NaN else if a > 0 then PosInf else NegInf)
      else overflow (a / b))"
| "js_div (Num a) y = Num 0"
| "js_div x (Num b) = (if js_sgn x * (if b < 0 then - 1 else 1) > 0 then PosInf else NegInf)"
| "js_div x y = NaN"

fun js_max :: "jsnum \<Rightarrow> jsnum \<Rightarrow> jsnum" where
  "js_max NaN y = NaN"
| "js_max x NaN = NaN"
| "js_max PosInf y = PosInf"
| "js_max x PosInf = PosInf"
| "js_max NegInf y = y"
| "js_max x NegInf = x"
| "js_max (Num a) (Num b) = Num (max a b)"

type_synonym vec3 = "jsnum \<times> jsnum \<times> jsnum"

record editor =
  \<comment> \<open>window and renderer\<close>
  WINDOW_WIDTH :: real
  WINDOW_HEIGHT :: real
  Renderer_size :: "real \<times> real"
  Camera_aspect :: real
  \<comment> \<open>orbit values and camera\<close>
  Radius :: jsnum
  Theta :: real
  Phi :: real
  Camera_position :: vec3
  Camera_lookAt :: "real \<times> real \<times> real"
  \<comment> \<open>mouse control\<close>
  IsDragging :: bool
  PreviousMousePosition :: "real \<times> real"
  IsTransformActive :: bool
  \<comment> \<open>transform controls (the gizmo)\<close>
  TransformControls_object :: "obj option"
  TransformControls_mode :: string
  CurrentModeIndex :: nat
  \<comment> \<open>sprites\<close>
  Sprites :: "obj list"
  SelectedSprite :: "obj option"
  UserTexture :: "nat option"
  Mouse :: "real \<times> real"
  \<comment> \<open>the scene graph: properties of every Object3D\<close>
  parent :: "obj \<Rightarrow> obj option"
  children :: "obj \<Rightarrow> obj list"
  kind :: "obj \<Rightarrow> kind"
  isSprite :: "obj \<Rightarrow> bool"
  visiblePlane :: "obj \<Rightarrow> obj option"
  selectionOutline :: "obj \<Rightarrow> obj option"
  next_obj :: obj

text \<open>The four objects the script creates at startup, in creation order.\<close>

abbreviation (input) Scene :: obj where "Scene \<equiv> 0"
abbreviation (input) GridHelper :: obj where "GridHelper \<equiv> 1"
abbreviation (input) AxesHelper :: obj where "AxesHelper \<equiv> 2"
abbreviation (input) TransformControls :: obj where "TransformControls \<equiv> 3"

definition TransformModes :: "string list" where
  "TransformModes = [''translate'', ''rotate'', ''scale'']"

subsection \<open>The rendering library's scene graph\<close>

text \<open>
  \<^verbatim>\<open>new THREE.X()\<close> makes an object with no parent and no children; the model takes the
  next unused number for it. \<^verbatim>\<open>a.add(c)\<close> refuses \<open>c = a\<close>, takes \<open>c\<close> out of its
  previous parent, and appends it to \<open>a.children\<close>. \<^verbatim>\<open>a.remove(c)\<close> does nothing
  unless \<open>c\<close> is among \<open>a.children\<close>, and then removes that entry and clears \<open>c.parent\<close>.
  These three are the library's, not the script's; they follow the library's documented
  behaviour.
\<close>

definition new_object :: "kind \<Rightarrow> editor \<Rightarrow> obj \<times> editor" where
  "new_object k s =
     (next_obj s,
      s\<lparr>parent := (parent s)(next_obj s := None),
        children := (children s)(next_obj s := []),
        kind := (kind s)(next_obj s := k),
        isSprite := (isSprite s)(next_obj s := False),
        visiblePlane := (visiblePlane s)(next_obj s := None),
        selectionOutline := (selectionOutline s)(next_obj s := None),
        next_obj := Suc (next_obj s)\<rparr>)"

definition Object3D_remove :: "obj \<Rightarrow> obj \<Rightarrow> editor \<Rightarrow> editor" where
  "Object3D_remove this c s =
     (if c \<in> set (children s this)
      then s\<lparr>parent := (parent s)(c := None),
             children := (children s)(this := remove1 c (children s this))\<rparr>
      else s)"

definition Object3D_add :: "obj \<Rightarrow> obj \<Rightarrow> editor \<Rightarrow> editor" where
  "Object3D_add this c s =
     (if c = this then s
      else
        let s1 = (case parent s c of None \<Rightarrow> s | Some q \<Rightarrow> Object3D_remove q c s)
        in s1\<lparr>parent := (parent s1)(c := Some this),
              children := (children s1)(this := children s1 this @ [c])\<rparr>)"

text \<open>\<^verbatim>\<open>TransformControls.attach\<close>, \<^verbatim>\<open>detach\<close> and \<^verbatim>\<open>setMode\<close> set one property each.\<close>

definition attach :: "obj \<Rightarrow> editor \<Rightarrow> editor" where
  "attach p s = s\<lparr>TransformControls_object := Some p\<rparr>"

definition detach :: "editor \<Rightarrow> editor" where
  "detach s = s\<lparr>TransformControls_object := None\<rparr>"

definition setMode :: "string \<Rightarrow> editor \<Rightarrow> editor" where
  "setMode m s = s\<lparr>TransformControls_mode := m\<rparr>"

section \<open>Coordinates system and camera control\<close>

text \<open>
  \<^verbatim>\<open>const PhiClamped = Math.max(0.01, Math.min(Math.PI - 0.01, Phi))\<close> is a local of
  \<^verbatim>\<open>UpdateCameraPosition\<close>; it is named here so that properties can speak about it.
  \<^verbatim>\<open>Camera.lookAt(0, 0, 0)\<close> is the library's; the model records the point given to it.
\<close>

definition PhiClamped :: "editor \<Rightarrow> real" where
  "PhiClamped s = max 0.01 (min (pi - 0.01) (Phi s))"

definition UpdateCameraPosition :: "editor \<Rightarrow> editor" where
  "UpdateCameraPosition s =
     s\<lparr>Camera_position :=
         (js_mul (js_mul (Radius s) (Num (sin (PhiClamped s)))) (Num (sin (Theta s))),
          js_mul (Radius s) (Num (cos (PhiClamped s))),
          js_mul (js_mul (Radius s) (Num (sin (PhiClamped s)))) (Num (cos (Theta s)))),
       Camera_lookAt := (0, 0, 0)\<rparr>"

text \<open>
  The listeners on the renderer's canvas. \<open>button\<close> is \<^verbatim>\<open>Event.button\<close> (2 is the
  secondary button); \<open>deltaY\<close> is \<^verbatim>\<open>Event.deltaY\<close>, positive when the wheel scrolls
  down.
\<close>

definition mousedown :: "int \<Rightarrow> real \<Rightarrow> real \<Rightarrow> editor \<Rightarrow> editor" where
  "mousedown button clientX clientY s =
     (if button = 2 \<and> \<not> IsTransformActive s
      then s\<lparr>IsDragging := True, PreviousMousePosition := (clientX, clientY)\<rparr>
      else s)"

definition mouseup :: "editor \<Rightarrow> editor" where
  "mouseup s = s\<lparr>IsDragging := False\<rparr>"

definition ROTATESPEED :: real where
  "ROTATESPEED = 0.005"

definition mousemove :: "real \<Rightarrow> real \<Rightarrow> editor \<Rightarrow> editor" where
  "mousemove clientX clientY s =
     (if \<not> IsDragging s \<or> IsTransformActive s then s
      else
        let DeltaMove = (clientX - fst (PreviousMousePosition s),
                         clientY - snd (PreviousMousePosition s));
            s1 = s\<lparr>Theta := Theta s - fst DeltaMove * ROTATESPEED\<rparr>;
            s2 = s1\<lparr>Phi := Phi s1 - snd DeltaMove * ROTATESPEED\<rparr>;
            s3 = UpdateCameraPosition s2
        in s3\<lparr>PreviousMousePosition := (clientX, clientY)\<rparr>)"

definition mouseleave :: "editor \<Rightarrow> editor" where
  "mouseleave s = s\<lparr>IsDragging := False\<rparr>"

definition ZOOMINTENSITY :: real where
  "ZOOMINTENSITY = 0.5"

definition wheel :: "real \<Rightarrow> editor \<Rightarrow> editor" where
  "wheel deltaY s =
     (if IsTransformActive s then s
      else
        let DELTA = (if deltaY > 0 then 1 else - 1);
            ZoomFactor = js_mul (Num ZOOMINTENSITY)
                           (js_max (Num 0.1) (js_div (js_sub (Radius s) (Num 1)) (Num 10)));
            s1 = s\<lparr>Radius := js_add (Radius s) (js_mul (Num DELTA) ZoomFactor)\<rparr>;
            s2 = s1\<lparr>Radius := js_max (Num 1.1) (Radius s1)\<rparr>
        in UpdateCameraPosition s2)"

definition dragging_changed :: "bool \<Rightarrow> editor \<Rightarrow> editor" where
  "dragging_changed v s = s\<lparr>IsTransformActive := v\<rparr>"

text \<open>
  The resize listener reads \<^verbatim>\<open>window.innerWidth\<close> and \<^verbatim>\<open>window.innerHeight\<close> afresh
  (the arguments here) and writes the camera's aspect and the renderer's size.
\<close>

definition resize :: "real \<Rightarrow> real \<Rightarrow> editor \<Rightarrow> editor" where
  "resize NewWidth NewHeight s =
     s\<lparr>Camera_aspect := NewWidth / NewHeight, Renderer_size := (NewWidth, NewHeight)\<rparr>"

text \<open>
  The state after the script has run to its end, before any event: \<open>innerWidth\<close> and
  \<open>innerHeight\<close> are the window's dimensions at that moment.
\<close>

definition startup :: "real \<Rightarrow> real \<Rightarrow> editor" where
  "startup innerWidth innerHeight =
     UpdateCameraPosition
       \<lparr>WINDOW_WIDTH = innerWidth, WINDOW_HEIGHT = innerHeight,
        Renderer_size = (innerWidth, innerHeight),
        Camera_aspect = innerWidth / innerHeight,
        Radius = Num 10, Theta = pi / 4, Phi = pi / 4,
        Camera_position = (Num 0, Num 0, Num 0), Camera_lookAt = (0, 0, - 1),
        IsDragging = False, PreviousMousePosition = (0, 0), IsTransformActive = False,
        TransformControls_object = None, TransformControls_mode = ''translate'',
        CurrentModeIndex = 0,
        Sprites = [], SelectedSprite = None, UserTexture = None, Mouse = (0, 0),
        parent = (\<lambda>_. None)(GridHelper := Some Scene, AxesHelper := Some Scene,
                              TransformControls := Some Scene),
        children = (\<lambda>_. [])(Scene := [GridHelper, AxesHelper, TransformControls]),
        kind = (\<lambda>_. Mesh)(Scene := SceneRoot, GridHelper := Helper, AxesHelper := Helper,
                            TransformControls := Controls),
        isSprite = (\<lambda>_. False),
        visiblePlane = (\<lambda>_. None),
        selectionOutline = (\<lambda>_. None),
        next_obj = 4\<rparr>"

section \<open>Sprite selection\<close>

text \<open>
  \<^verbatim>\<open>Array.prototype.indexOf\<close>: the first index holding the value, \<open>-1\<close> when there is
  none. \<^verbatim>\<open>xs.splice(i, 1)\<close> drops the entry at index \<open>i\<close>.
\<close>

fun indexOf :: "'a list \<Rightarrow> 'a \<Rightarrow> int" where
  "indexOf [] x = - 1"
| "indexOf (y # ys) x =
     (if y = x then 0 else (let i = indexOf ys x in if i < 0 then - 1 else i + 1))"

definition splice1 :: "nat \<Rightarrow> 'a list \<Rightarrow> 'a list" where
  "splice1 i xs = take i xs @ drop (Suc i) xs"

text \<open>
  \<^verbatim>\<open>SelectSprite\<close>. Reading \<^verbatim>\<open>VisiblePlane.geometry\<close> of an object that has no
  \<^verbatim>\<open>userData.visiblePlane\<close> throws a TypeError; an uncaught exception ends the listener,
  and the model does not follow the variables it leaves half updated.
\<close>

definition SelectSprite :: "obj \<Rightarrow> editor \<Rightarrow> error + editor" where
  "SelectSprite Sprite s =
     (let s1 = (case SelectedSprite s of
                  None \<Rightarrow> s
                | Some prev \<Rightarrow>
                    (case selectionOutline s prev of
                       None \<Rightarrow> s
                     | Some ol \<Rightarrow>
                         (let r = Object3D_remove prev ol s
                          in r\<lparr>selectionOutline := (selectionOutline r)(prev := None)\<rparr>)));
          s2 = s1\<lparr>SelectedSprite := Some Sprite\<rparr>;
          s3 = attach Sprite s2;
          s4 = setMode (TransformModes ! CurrentModeIndex s3) s3
      in case visiblePlane s4 Sprite of
           None \<Rightarrow> Inl TypeError
         | Some VisiblePlane \<Rightarrow>
             (let (OutlineMesh, s5) = new_object LineSegments s4;
                  s6 = Object3D_add Sprite OutlineMesh s5
              in Inr (s6\<lparr>selectionOutline := (selectionOutline s6)(Sprite := Some OutlineMesh)\<rparr>)))"

definition DeselectCurrentSprite :: "editor \<Rightarrow> editor" where
  "DeselectCurrentSprite s =
     (case SelectedSprite s of
        None \<Rightarrow> s
      | Some sel \<Rightarrow>
          (let s1 = detach s;
               s2 = (case selectionOutline s1 sel of
                       None \<Rightarrow> s1
                     | Some ol \<Rightarrow>
                         (let r = Object3D_remove sel ol s1
                          in r\<lparr>selectionOutline := (selectionOutline r)(sel := None)\<rparr>))
           in s2\<lparr>SelectedSprite := None\<rparr>))"

definition DeleteSelectedSprite :: "editor \<Rightarrow> editor" where
  "DeleteSelectedSprite s =
     (case SelectedSprite s of
        None \<Rightarrow> s
      | Some sel \<Rightarrow>
          (let s1 = (case selectionOutline s sel of
                       None \<Rightarrow> s
                     | Some ol \<Rightarrow> Object3D_remove sel ol s);
               s2 = Object3D_remove Scene sel s1;
               Index = indexOf (Sprites s2) sel;
               s3 = (if Index > - 1
                     then s2\<lparr>Sprites := splice1 (nat Index) (Sprites s2)\<rparr> else s2);
               s4 = detach s3
           in s4\<lparr>SelectedSprite := None\<rparr>))"

text \<open>\<open>confirmed\<close> is the user's answer to the \<^verbatim>\<open>confirm\<close> dialog.\<close>

definition ShowDeleteConfirmation :: "bool \<Rightarrow> editor \<Rightarrow> editor" where
  "ShowDeleteConfirmation confirmed s = (if confirmed then DeleteSelectedSprite s else s)"

text \<open>
  \<^verbatim>\<open>CreatePlaneSprite\<close> and the listener of the add button. Geometries, materials and
  textures are not scene-graph objects and are left out. Without a texture the function
  alerts and returns \<^verbatim>\<open>null\<close>, and the listener does nothing.
\<close>

definition CreatePlaneSprite :: "editor \<Rightarrow> (obj \<times> editor) option" where
  "CreatePlaneSprite s =
     (case UserTexture s of
        None \<Rightarrow> None
      | Some _ \<Rightarrow>
          (let (SpriteGroup, s1) = new_object Group s;
               (Plane, s2) = new_object Mesh s1;
               s3 = Object3D_add SpriteGroup Plane s2;
               (SelectionBox, s4) = new_object Mesh s3;
               s5 = Object3D_add SpriteGroup SelectionBox s4;
               s6 = s5\<lparr>isSprite := (isSprite s5)(SpriteGroup := True)\<rparr>;
               s7 = s6\<lparr>visiblePlane := (visiblePlane s6)(SpriteGroup := Some Plane)\<rparr>
           in Some (SpriteGroup, s7)))"

definition addSpriteBtn_click :: "editor \<Rightarrow> error + editor" where
  "addSpriteBtn_click s =
     (case CreatePlaneSprite s of
        None \<Rightarrow> Inr s
      | Some (PlaneSprite, s1) \<Rightarrow>
          (let s2 = Object3D_add Scene PlaneSprite s1;
               s3 = s2\<lparr>Sprites := Sprites s2 @ [PlaneSprite]\<rparr>
           in SelectSprite PlaneSprite s3))"

text \<open>The texture loader's callback stores the loaded texture.\<close>

definition texture_loaded :: "nat \<Rightarrow> editor \<Rightarrow> editor" where
  "texture_loaded t s = s\<lparr>UserTexture := Some t\<rparr>"

subsection \<open>Picking\<close>

text \<open>
  The walk \<^verbatim>\<open>while (Parent.parent && Parent.parent !== Scene) Parent = Parent.parent\<close>
  ends only if the chain of parents does; \<open>None\<close> is the walk that never ends.
\<close>

partial_function (option) top_level_parent :: "(obj \<Rightarrow> obj option) \<Rightarrow> obj \<Rightarrow> obj option" where
  "top_level_parent par p =
     (case par p of
        None \<Rightarrow> Some p
      | Some q \<Rightarrow> if q = Scene then Some p else top_level_parent par q)"

text \<open>
  The \<^verbatim>\<open>for\<close> loop over the intersections, nearest first: the first one whose
  top-level parent is marked \<^verbatim>\<open>isSprite\<close> is taken. The outer \<open>None\<close> is a walk that
  never ends, the inner \<open>None\<close> is \<^verbatim>\<open>SpriteToSelect === null\<close>.
\<close>

fun find_sprite :: "editor \<Rightarrow> obj list \<Rightarrow> obj option option" where
  "find_sprite s [] = Some None"
| "find_sprite s (h # hs) =
     (case top_level_parent (parent s) h of
        None \<Rightarrow> None
      | Some Parent \<Rightarrow> if isSprite s Parent then Some (Some Parent) else find_sprite s hs)"

text \<open>
  The click listener. \<open>intersectObjects\<close> stands for the library's ray caster: given
  the state (camera, scene and the \<^verbatim>\<open>Mouse\<close> vector just written) it returns the
  objects hit, nearest first.
\<close>

definition click ::
  "(editor \<Rightarrow> obj list) \<Rightarrow> int \<Rightarrow> real \<Rightarrow> real \<Rightarrow> editor \<Rightarrow> (error + editor) option" where
  "click intersectObjects button clientX clientY s =
     (if button = 2 \<or> IsTransformActive s then Some (Inr s)
      else
        let s1 = s\<lparr>Mouse := ((clientX / WINDOW_WIDTH s) * 2 - 1,
                              - (clientY / WINDOW_HEIGHT s) * 2 + 1)\<rparr>;
            Intersects = intersectObjects s1
        in case find_sprite s1 Intersects of
             None \<Rightarrow> None
           | Some None \<Rightarrow> Some (Inr (DeselectCurrentSprite s1))
           | Some (Some SpriteToSelect) \<Rightarrow> Some (SelectSprite SpriteToSelect s1))"

subsection \<open>Keyboard\<close>

text \<open>
  Two listeners are registered for \<^verbatim>\<open>keydown\<close> on the document; the browser calls them
  in the order of registration. \<open>code\<close> is \<^verbatim>\<open>Event.code\<close>.

  The operands of \<^verbatim>\<open>%\<close> are never negative here (\<^verbatim>\<open>CurrentIndex\<close> is \<open>-1\<close> at least),
  so the remainder is \<open>mod\<close>. \<^verbatim>\<open>Sprites[NextIndex]\<close> is always in range, \<open>NextIndex\<close>
  being \<open>0\<close> or a remainder by the length of a non-empty array;
  \<^verbatim>\<open>TransformModes[CurrentModeIndex]\<close> is in range as long as the index is below 3, which
  the listeners maintain.
\<close>

definition keydown_first :: "string \<Rightarrow> editor \<Rightarrow> editor" where
  "keydown_first code s =
     (let s1 = (if code = ''Space'' \<and> TransformControls_object s \<noteq> None
                then (let r = s\<lparr>CurrentModeIndex :=
                                    (CurrentModeIndex s + 1) mod length TransformModes\<rparr>
                      in setMode (TransformModes ! CurrentModeIndex r) r)
                else s)
      in if code = ''Escape'' then detach s1 else s1)"

definition keydown_second :: "string \<Rightarrow> bool \<Rightarrow> editor \<Rightarrow> error + editor" where
  "keydown_second code confirmed s =
     (let s1 = (if code = ''Space'' \<and> TransformControls_object s \<noteq> None
                then (let r = s\<lparr>CurrentModeIndex :=
                                    (CurrentModeIndex s + 1) mod length TransformModes\<rparr>
                      in setMode (TransformModes ! CurrentModeIndex r) r)
                else s);
          s2 = (if code = ''Escape'' then DeselectCurrentSprite s1 else s1);
          s3 = (if (code = ''Delete'' \<or> code = ''Backspace'') \<and> SelectedSprite s2 \<noteq> None
                then ShowDeleteConfirmation confirmed s2 else s2)
      in if code = ''Tab'' then
           (if length (Sprites s3) > 0 then
              (let NextIndex =
                     (case SelectedSprite s3 of
                        None \<Rightarrow> 0
                      | Some sel \<Rightarrow>
                          (let CurrentIndex = indexOf (Sprites s3) sel
                           in nat ((CurrentIndex + 1) mod int (length (Sprites s3)))))
               in SelectSprite (Sprites s3 ! NextIndex) s3)
            else Inr s3)
         else Inr s3)"

definition keydown :: "string \<Rightarrow> bool \<Rightarrow> editor \<Rightarrow> error + editor" where
  "keydown code confirmed s = keydown_second code confirmed (keydown_first code s)"

text \<open>The three mode buttons (\<^verbatim>\<open>{ Id, Mode, Index }\<close>) and the delete button.\<close>

definition ModeButtons :: "(string \<times> string \<times> nat) list" where
  "ModeButtons =
     [(''translateBtn'', ''translate'', 0), (''rotateBtn'', ''rotate'', 1),
      (''scaleBtn'', ''scale'', 2)]"

fun modeBtn_click :: "string \<times> string \<times> nat \<Rightarrow> editor \<Rightarrow> editor" where
  "modeBtn_click (BtnId, Mode, Index) s =
     (if TransformControls_object s \<noteq> None
      then (setMode Mode s)\<lparr>CurrentModeIndex := Index\<rparr> else s)"

definition deleteBtn_click :: "bool \<Rightarrow> editor \<Rightarrow> editor" where
  "deleteBtn_click confirmed s =
     (if SelectedSprite s \<noteq> None then ShowDeleteConfirmation confirmed s else s)"

section \<open>Sequences of events\<close>

text \<open>
  The events whose listeners need nothing but the event's own data. The state an
  uncaught exception leaves behind is not followed, so in the model a run stops at the
  first exception. The click on the canvas is kept apart (\<^const>\<open>click\<close>), because its
  listener also depends on what the ray caster returns. \<open>ModeBtn k\<close> is a click on the
  \<open>k\<close>-th of the three mode buttons.
\<close>

datatype event =
    MouseDown int real real
  | MouseUp
  | MouseMove real real
  | MouseLeave
  | Wheel real
  | DraggingChanged bool
  | Resize real real
  | TextureLoaded nat
  | AddSpriteBtn
  | KeyDown string bool
  | ModeBtn nat
  | DeleteBtn bool

fun dispatch :: "event \<Rightarrow> editor \<Rightarrow> error + editor" where
  "dispatch (MouseDown button clientX clientY) s = Inr (mousedown button clientX clientY s)"
| "dispatch MouseUp s = Inr (mouseup s)"
| "dispatch (MouseMove clientX clientY) s = Inr (mousemove clientX clientY s)"
| "dispatch MouseLeave s = Inr (mouseleave s)"
| "dispatch (Wheel deltaY) s = Inr (wheel deltaY s)"
| "dispatch (DraggingChanged v) s = Inr (dragging_changed v s)"
| "dispatch (Resize NewWidth NewHeight) s = Inr (resize NewWidth NewHeight s)"
| "dispatch (TextureLoaded t) s = Inr (texture_loaded t s)"
| "dispatch AddSpriteBtn s = addSpriteBtn_click s"
| "dispatch (KeyDown code confirmed) s = keydown code confirmed s"
| "dispatch (ModeBtn k) s =
     Inr (if k < length ModeButtons then modeBtn_click (ModeButtons ! k) s else s)"
| "dispatch (DeleteBtn confirmed) s = Inr (deleteBtn_click confirmed s)"

fun run :: "event list \<Rightarrow> editor \<Rightarrow> error + editor" where
  "run [] s = Inr s"
| "run (e # es) s = (case dispatch e s of Inl err \<Rightarrow> Inl err | Inr s' \<Rightarrow> run es s')"

subsection \<open>Sessions with clicks on the canvas\<close>

text \<open>
  A session is a sequence of events and of clicks on the canvas. A click carries the
  library's ray caster for its pointer position: \<open>intersectObjects s\<close> are the objects the
  ray hits in the scene of the state \<open>s\<close>, nearest first. Like a run, a session stops at
  the first exception; it is \<open>None\<close> when a listener does not return.
\<close>

datatype input = Event event | Click "editor \<Rightarrow> obj list" int real real

fun handle :: "input \<Rightarrow> editor \<Rightarrow> (error + editor) option" where
  "handle (Event e) s = Some (dispatch e s)"
| "handle (Click intersectObjects button clientX clientY) s =
     click intersectObjects button clientX clientY s"

fun session :: "input list \<Rightarrow> editor \<Rightarrow> (error + editor) option" where
  "session [] s = Some (Inr s)"
| "session (i # ins) s =
     (case handle i s of
        None \<Rightarrow> None
      | Some (Inl err) \<Rightarrow> Some (Inl err)
      | Some (Inr s') \<Rightarrow> session ins s')"

text \<open>
  \<^verbatim>\<open>Raycaster.intersectObjects(Scene.children, true)\<close> tests the children of the scene
  and, recursively, their children, so every object it returns lies below a child of
  the scene: the walk up its parents ends at one of \<^verbatim>\<open>Scene.children\<close>. This is the
  library's part in a click, stated as a property of the ray caster.
\<close>

definition under_scene :: "(editor \<Rightarrow> obj list) \<Rightarrow> bool" where
  "under_scene intersectObjects \<longleftrightarrow>
     (\<forall>s. \<forall>h \<in> set (intersectObjects s).
        \<exists>p \<in> set (children s Scene). top_level_parent (parent s) h = Some p)"

fun scene_input :: "input \<Rightarrow> bool" where
  "scene_input (Event e) = True"
| "scene_input (Click intersectObjects button clientX clientY) = under_scene intersectObjects"

section \<open>Invariants of the selection\<close>

text \<open>
  The outline decorations of an object are its \<^verbatim>\<open>LineSegments\<close> children; the
  outlines in the scene are those of the sprite groups among the scene's children.
\<close>

definition outlines :: "editor \<Rightarrow> obj \<Rightarrow> obj list" where
  "outlines s p = filter (\<lambda>c. kind s c = LineSegments) (children s p)"

definition scene_outlines :: "editor \<Rightarrow> obj list" where
  "scene_outlines s = concat (map (outlines s) (filter (isSprite s) (children s Scene)))"

text \<open>
  The invariant of the selection state: an outline is attached to a tracked sprite
  exactly when it is the selected one, the gizmo is attached exactly when something is
  selected, and at most one tracked sprite carries an outline.
\<close>

definition selection_inv :: "editor \<Rightarrow> bool" where
  "selection_inv s \<longleftrightarrow>
     (\<forall>p \<in> set (Sprites s). (outlines s p \<noteq> []) = (SelectedSprite s = Some p)) \<and>
     (TransformControls_object s \<noteq> None) = (SelectedSprite s \<noteq> None) \<and>
     length (filter (\<lambda>p. outlines s p \<noteq> []) (Sprites s)) \<le> 1"

text \<open>
  What the listeners maintain besides: a tracked sprite is a group created by
  \<^const>\<open>CreatePlaneSprite\<close> and sits directly under the scene; the selected sprite is
  tracked and remembers its one outline; the scene's children are the three startup
  objects followed by the tracked sprites.
\<close>

definition sprite_wf :: "editor \<Rightarrow> obj \<Rightarrow> bool" where
  "sprite_wf s p \<longleftrightarrow>
     3 < p \<and> p < next_obj s \<and> kind s p = Group \<and> isSprite s p \<and>
     parent s p = Some Scene \<and> visiblePlane s p \<noteq> None \<and>
     (\<forall>c \<in> set (children s p). c < next_obj s)"

definition outline_ok :: "editor \<Rightarrow> obj \<Rightarrow> bool" where
  "outline_ok s p \<longleftrightarrow>
     (SelectedSprite s = Some p \<longrightarrow> map Some (outlines s p) = [selectionOutline s p]) \<and>
     (SelectedSprite s \<noteq> Some p \<longrightarrow> outlines s p = [])"

definition editor_inv :: "editor \<Rightarrow> bool" where
  "editor_inv s \<longleftrightarrow>
     children s Scene = [GridHelper, AxesHelper, TransformControls] @ Sprites s \<and>
     distinct (Sprites s) \<and>
     (\<forall>p \<in> set (Sprites s). sprite_wf s p \<and> outline_ok s p) \<and>
     set_option (SelectedSprite s) \<subseteq> set (Sprites s) \<and>
     TransformControls_object s = SelectedSprite s \<and>
     \<not> isSprite s GridHelper \<and> \<not> isSprite s AxesHelper \<and> \<not> isSprite s TransformControls \<and>
     CurrentModeIndex s < length TransformModes \<and>
     3 < next_obj s"

text \<open>
  What one event may change, seen from outside: identifiers are only ever allocated,
  the startup dimensions stay, the radius either stays or is what \<^verbatim>\<open>Math.max(1.1, .)\<close>
  returned (a number not below \<open>1.1\<close>, \<^verbatim>\<open>Infinity\<close> or \<^verbatim>\<open>NaN\<close>), and a sprite that
  becomes tracked is freshly allocated.
\<close>

definition step_ok :: "editor \<Rightarrow> editor \<Rightarrow> bool" where
  "step_ok s s' \<longleftrightarrow>
     next_obj s \<le> next_obj s' \<and>
     WINDOW_WIDTH s' = WINDOW_WIDTH s \<and> WINDOW_HEIGHT s' = WINDOW_HEIGHT s \<and>
     (Radius s' = Radius s \<or> Radius s' = js_max (Num 1.1) (Radius s')) \<and>
     set (Sprites s') \<subseteq> set (Sprites s) \<union> {next_obj s ..< next_obj s'}"

section \<open>Four states of the editor and a ray\<close>

text \<open>
  The states a window of 800 by 600 is in after a texture was loaded and the add button
  was clicked once, twice and three times, and after Escape was then pressed.
  \<open>one_sprite\<close>: the sprite group 4 with its plane 5 and selection box 6, selected and
  carrying the outline 7. \<open>two_sprites\<close>: a second group 8 (plane 9, box 10), selected
  and carrying the outline 11; the outline 7 was taken off the first.
  \<open>three_sprites_selected\<close>: a third group 12 (plane 13, box 14), selected, with the
  outline 15. \<open>three_sprites\<close>: the same three groups with nothing selected.
\<close>

definition one_sprite :: editor where
  "one_sprite =
     (startup 800 600)
       \<lparr>TransformControls_object := Some 4,
        Sprites := [4], SelectedSprite := Some 4, UserTexture := Some 0,
        parent := (\<lambda>_. None)(GridHelper := Some Scene, AxesHelper := Some Scene,
                    TransformControls := Some Scene, 4 := Some Scene, 5 := Some 4, 6 := Some 4,
                    7 := Some 4),
        children := (\<lambda>_. [])(Scene := [GridHelper, AxesHelper, TransformControls, 4],
                    4 := [5, 6, 7]),
        kind := (\<lambda>_. Mesh)(Scene := SceneRoot, GridHelper := Helper, AxesHelper := Helper,
                    TransformControls := Controls, 4 := Group, 7 := LineSegments),
        isSprite := (\<lambda>_. False)(4 := True),
        visiblePlane := (\<lambda>_. None)(4 := Some 5),
        selectionOutline := (\<lambda>_. None)(4 := Some 7),
        next_obj := 8\<rparr>"

definition two_sprites :: editor where
  "two_sprites =
     (startup 800 600)
       \<lparr>TransformControls_object := Some 8,
        Sprites := [4, 8], SelectedSprite := Some 8, UserTexture := Some 0,
        parent := (\<lambda>_. None)(GridHelper := Some Scene, AxesHelper := Some Scene,
                    TransformControls := Some Scene, 4 := Some Scene, 5 := Some 4, 6 := Some 4,
                    8 := Some Scene, 9 := Some 8, 10 := Some 8, 11 := Some 8),
        children := (\<lambda>_. [])(Scene := [GridHelper, AxesHelper, TransformControls, 4, 8],
                    4 := [5, 6], 8 := [9, 10, 11]),
        kind := (\<lambda>_. Mesh)(Scene := SceneRoot, GridHelper := Helper, AxesHelper := Helper,
                    TransformControls := Controls, 4 := Group, 7 := LineSegments, 8 := Group,
                    11 := LineSegments),
        isSprite := (\<lambda>_. False)(4 := True, 8 := True),
        visiblePlane := (\<lambda>_. None)(4 := Some 5, 8 := Some 9),
        selectionOutline := (\<lambda>_. None)(8 := Some 11),
        next_obj := 12\<rparr>"

definition three_sprites_selected :: editor where
  "three_sprites_selected =
     (startup 800 600)
       \<lparr>TransformControls_object := Some 12,
        Sprites := [4, 8, 12], SelectedSprite := Some 12, UserTexture := Some 0,
        parent := (\<lambda>_. None)(GridHelper := Some Scene, AxesHelper := Some Scene,
                    TransformControls := Some Scene, 4 := Some Scene, 5 := Some 4, 6 := Some 4,
                    8 := Some Scene, 9 := Some 8, 10 := Some 8,
                    12 := Some Scene, 13 := Some 12, 14 := Some 12, 15 := Some 12),
        children := (\<lambda>_. [])(Scene := [GridHelper, AxesHelper, TransformControls, 4, 8, 12],
                    4 := [5, 6], 8 := [9, 10], 12 := [13, 14, 15]),
        kind := (\<lambda>_. Mesh)(Scene := SceneRoot, GridHelper := Helper, AxesHelper := Helper,
                    TransformControls := Controls, 4 := Group, 7 := LineSegments, 8 := Group,
                    11 := LineSegments, 12 := Group, 15 := LineSegments),
        isSprite := (\<lambda>_. False)(4 := True, 8 := True, 12 := True),
        visiblePlane := (\<lambda>_. None)(4 := Some 5, 8 := Some 9, 12 := Some 13),
        selectionOutline := (\<lambda>_. None)(12 := Some 15),
        next_obj := 16\<rparr>"

definition three_sprites :: editor where
  "three_sprites =
     (startup 800 600)
       \<lparr>Sprites := [4, 8, 12], UserTexture := Some 0,
        parent := (\<lambda>_. None)(GridHelper := Some Scene, AxesHelper := Some Scene,
                    TransformControls := Some Scene, 4 := Some Scene, 5 := Some 4, 6 := Some 4,
                    8 := Some Scene, 9 := Some 8, 10 := Some 8,
                    12 := Some Scene, 13 := Some 12, 14 := Some 12),
        children := (\<lambda>_. [])(Scene := [GridHelper, AxesHelper, TransformControls, 4, 8, 12],
                    4 := [5, 6], 8 := [9, 10], 12 := [13, 14]),
        kind := (\<lambda>_. Mesh)(Scene := SceneRoot, GridHelper := Helper, AxesHelper := Helper,
                    TransformControls := Controls, 4 := Group, 7 := LineSegments, 8 := Group,
                    11 := LineSegments, 12 := Group, 15 := LineSegments),
        isSprite := (\<lambda>_. False)(4 := True, 8 := True, 12 := True),
        visiblePlane := (\<lambda>_. None)(4 := Some 5, 8 := Some 9, 12 := Some 13),
        next_obj := 16\<rparr>"

text \<open>
  A ray for the examples: it passes through the objects \<open>hs\<close>, nearest first, and hits
  those of them that lie below a child of the scene.
\<close>

definition ray_through :: "obj list \<Rightarrow> editor \<Rightarrow> obj list" where
  "ray_through hs s =
     filter (\<lambda>h. case top_level_parent (parent s) h of
                    None \<Rightarrow> False
                  | Some p \<Rightarrow> p \<in> set (children s Scene)) hs"

section \<open>Lemmas\<close>

subsection \<open>The invariant, selecting and deselecting\<close>

lemma startup_inv: "editor_inv (startup w h)"
  by (simp add: editor_inv_def startup_def UpdateCameraPosition_def TransformModes_def)

lemma filter_single_remove1:
  "filter P xs = [x] \<Longrightarrow> filter P (remove1 x xs) = []"
  by (metis filter_remove1 remove1.simps(2))

lemma inv_sprite: "editor_inv s \<Longrightarrow> p \<in> set (Sprites s) \<Longrightarrow> sprite_wf s p \<and> outline_ok s p"
  by (simp add: editor_inv_def)

lemma inv_gizmo: "editor_inv s \<Longrightarrow> TransformControls_object s = SelectedSprite s"
  unfolding editor_inv_def by blast

lemma inv_distinct: "editor_inv s \<Longrightarrow> distinct (Sprites s)"
  unfolding editor_inv_def by blast

lemma inv_scene_children:
  "editor_inv s \<Longrightarrow> children s Scene = [GridHelper, AxesHelper, TransformControls] @ Sprites s"
  unfolding editor_inv_def by blast

lemma inv_selected:
  assumes "editor_inv s" "SelectedSprite s = Some a"
  obtains ol where "a \<in> set (Sprites s)" "selectionOutline s a = Some ol" "outlines s a = [ol]"
    "ol \<in> set (children s a)" "kind s ol = LineSegments" "ol \<notin> set (Sprites s)"
proof -
  from assms have a: "a \<in> set (Sprites s)" by (simp add: editor_inv_def)
  with assms have "outline_ok s a" by (simp add: inv_sprite)
  with assms(2) have "map Some (outlines s a) = [selectionOutline s a]"
    by (simp add: outline_ok_def)
  then have "\<exists>ol. selectionOutline s a = Some ol \<and> outlines s a = [ol]"
    by (cases "outlines s a") auto
  then obtain ol where ol: "selectionOutline s a = Some ol" "outlines s a = [ol]"
    by blast
  from ol(2) have "ol \<in> set (filter (\<lambda>c. kind s c = LineSegments) (children s a))"
    by (simp add: outlines_def)
  then have k: "ol \<in> set (children s a)" "kind s ol = LineSegments" by auto
  have "ol \<notin> set (Sprites s)"
  proof
    assume "ol \<in> set (Sprites s)"
    with assms(1) have "sprite_wf s ol" by (simp add: inv_sprite)
    with k(2) show False by (simp add: sprite_wf_def)
  qed
  with a ol k that show thesis by blast
qed

lemma Deselect_Idle: "SelectedSprite s = None \<Longrightarrow> DeselectCurrentSprite s = s"
  by (simp add: DeselectCurrentSprite_def)

lemma Deselect_Selected:
  assumes "SelectedSprite s = Some a" "selectionOutline s a = Some ol" "ol \<in> set (children s a)"
  shows "DeselectCurrentSprite s =
     s\<lparr>TransformControls_object := None, SelectedSprite := None,
       parent := (parent s)(ol := None),
       children := (children s)(a := remove1 ol (children s a)),
       selectionOutline := (selectionOutline s)(a := None)\<rparr>"
  using assms by (simp add: DeselectCurrentSprite_def detach_def Object3D_remove_def Let_def)

lemma Deselect_inv: 
  assumes inv: "editor_inv s" shows "editor_inv (DeselectCurrentSprite s)"
proof (cases "SelectedSprite s")
  case None
  with inv show ?thesis by (simp add: Deselect_Idle)
next
  case (Some a)
  from inv_selected [OF inv Some] obtain ol where
    a: "a \<in> set (Sprites s)" and ol: "selectionOutline s a = Some ol" "outlines s a = [ol]"
    "ol \<in> set (children s a)" "kind s ol = LineSegments" "ol \<notin> set (Sprites s)" by blast
  define s' where "s' = DeselectCurrentSprite s"
  have s': "s' = s\<lparr>TransformControls_object := None, SelectedSprite := None,
       parent := (parent s)(ol := None),
       children := (children s)(a := remove1 ol (children s a)),
       selectionOutline := (selectionOutline s)(a := None)\<rparr>"
    unfolding s'_def by (rule Deselect_Selected [OF Some ol(1) ol(3)])
  have a3: "3 < a" using inv_sprite [OF inv a] by (simp add: sprite_wf_def)
  have per: "sprite_wf s' p \<and> outline_ok s' p" if p: "p \<in> set (Sprites s)" for p
  proof -
    from inv_sprite [OF inv p] have w: "sprite_wf s p" and o: "outline_ok s p" by simp_all
    from p ol(5) have pol: "p \<noteq> ol" by auto
    have "sprite_wf s' p"
      using w pol unfolding sprite_wf_def s'
      by (auto dest: notin_set_remove1)
    moreover have "outline_ok s' p"
    proof (cases "p = a")
      case True
      with ol(2) show ?thesis
        by (simp add: outline_ok_def s' outlines_def filter_single_remove1)
    next
      case False
      with o Some show ?thesis by (simp add: outline_ok_def s' outlines_def)
    qed
    ultimately show ?thesis ..
  qed
  have "editor_inv s'"
    unfolding editor_inv_def
  proof (intro conjI ballI)
    show "children s' Scene = [GridHelper, AxesHelper, TransformControls] @ Sprites s'"
      using inv a3 by (simp add: s' editor_inv_def)
    show "distinct (Sprites s')" using inv by (simp add: s' editor_inv_def)
    show "sprite_wf s' p" if "p \<in> set (Sprites s')" for p using per that by (simp add: s')
    show "outline_ok s' p" if "p \<in> set (Sprites s')" for p using per that by (simp add: s')
  qed (use inv in \<open>simp_all add: s' editor_inv_def\<close>)
  then show ?thesis by (simp add: s'_def)
qed


lemma Deselect_facts:
  "SelectedSprite (DeselectCurrentSprite s) = None"
  "Sprites (DeselectCurrentSprite s) = Sprites s"
  "CurrentModeIndex (DeselectCurrentSprite s) = CurrentModeIndex s"
  "TransformControls_mode (DeselectCurrentSprite s) = TransformControls_mode s"
  "next_obj (DeselectCurrentSprite s) = next_obj s"
  by (simp_all add: DeselectCurrentSprite_def detach_def Object3D_remove_def Let_def
        split: option.splits)

lemma SelectSprite_via_Deselect:
  "SelectSprite b s = SelectSprite b (DeselectCurrentSprite s)"
  by (simp add: SelectSprite_def DeselectCurrentSprite_def detach_def attach_def setMode_def
        Object3D_remove_def Object3D_add_def new_object_def Let_def
        split: option.splits)

lemma SelectSprite_Idle:
  assumes "SelectedSprite s = None" "visiblePlane s b = Some vp" "b \<noteq> next_obj s"
  shows "SelectSprite b s = Inr
     (s\<lparr>SelectedSprite := Some b, TransformControls_object := Some b,
        TransformControls_mode := TransformModes ! CurrentModeIndex s,
        parent := (parent s)(next_obj s := Some b),
        children := (children s)(next_obj s := [], b := children s b @ [next_obj s]),
        kind := (kind s)(next_obj s := LineSegments),
        isSprite := (isSprite s)(next_obj s := False),
        visiblePlane := (visiblePlane s)(next_obj s := None),
        selectionOutline := (selectionOutline s)(next_obj s := None, b := Some (next_obj s)),
        next_obj := Suc (next_obj s)\<rparr>)"
  using assms
  by (simp add: SelectSprite_def attach_def setMode_def Object3D_add_def new_object_def Let_def)

lemma SelectSprite_Idle_inv:
  assumes inv: "editor_inv s" and idle: "SelectedSprite s = None" and b: "b \<in> set (Sprites s)"
  shows "\<exists>s'. SelectSprite b s = Inr s' \<and> editor_inv s' \<and> SelectedSprite s' = Some b \<and>
           Sprites s' = Sprites s \<and> CurrentModeIndex s' = CurrentModeIndex s \<and>
           TransformControls_mode s' = TransformModes ! CurrentModeIndex s"
proof -
  from inv_sprite [OF inv b] have wb: "sprite_wf s b" by simp
  then obtain vp where vp: "visiblePlane s b = Some vp" and bn: "b \<noteq> next_obj s"
    by (auto simp: sprite_wf_def)
  define n where "n = next_obj s"
  define s' where "s' = s\<lparr>SelectedSprite := Some b, TransformControls_object := Some b,
        TransformControls_mode := TransformModes ! CurrentModeIndex s,
        parent := (parent s)(n := Some b),
        children := (children s)(n := [], b := children s b @ [n]),
        kind := (kind s)(n := LineSegments),
        isSprite := (isSprite s)(n := False),
        visiblePlane := (visiblePlane s)(n := None),
        selectionOutline := (selectionOutline s)(n := None, b := Some n),
        next_obj := Suc n\<rparr>"
  have eq: "SelectSprite b s = Inr s'"
    unfolding s'_def n_def by (rule SelectSprite_Idle [OF idle vp bn])
  have per: "sprite_wf s' p \<and> outline_ok s' p" if p: "p \<in> set (Sprites s)" for p
  proof -
    from inv_sprite [OF inv p] have w: "sprite_wf s p" and o: "outline_ok s p" by simp_all
    from w have pn: "p < n" "p \<noteq> n" by (simp_all add: sprite_wf_def n_def)
    from w have cn: "\<forall>c \<in> set (children s p). c < n" by (simp add: sprite_wf_def n_def)
    then have cn': "\<forall>c \<in> set (children s p). c \<noteq> n" by auto
    have "sprite_wf s' p"
      using w pn cn unfolding sprite_wf_def s'_def n_def [symmetric]
      by (auto simp: less_Suc_eq)
    moreover have "outline_ok s' p"
    proof -
      from o idle have e: "filter (\<lambda>c. kind s c = LineSegments) (children s p) = []"
        by (simp add: outline_ok_def outlines_def)
      have f: "filter (\<lambda>c. c \<noteq> n \<longrightarrow> kind s c = LineSegments) (children s p)
             = filter (\<lambda>c. kind s c = LineSegments) (children s p)"
        using cn' by (intro filter_cong) auto
      show ?thesis
        using pn e f by (simp add: outline_ok_def s'_def outlines_def)
    qed
    ultimately show ?thesis ..
  qed
  have b3: "3 < b" "b \<noteq> 0" using wb by (simp_all add: sprite_wf_def)
  have n3: "3 < n" using wb by (simp add: sprite_wf_def n_def)
  have "editor_inv s'"
    unfolding editor_inv_def
  proof (intro conjI ballI)
    show "children s' Scene = [GridHelper, AxesHelper, TransformControls] @ Sprites s'"
      using inv b3 n3 by (simp add: s'_def editor_inv_def)
    show "distinct (Sprites s')" using inv by (simp add: s'_def editor_inv_def)
    show "sprite_wf s' p" if "p \<in> set (Sprites s')" for p using per that by (simp add: s'_def)
    show "outline_ok s' p" if "p \<in> set (Sprites s')" for p using per that by (simp add: s'_def)
    show "set_option (SelectedSprite s') \<subseteq> set (Sprites s')"
      using b by (simp add: s'_def)
  qed (use inv n3 in \<open>simp_all add: s'_def editor_inv_def\<close>)
  with eq show ?thesis by (simp add: s'_def)
qed

lemma SelectSprite_inv:
  assumes inv: "editor_inv s" and b: "b \<in> set (Sprites s)"
  shows "\<exists>s'. SelectSprite b s = Inr s' \<and> editor_inv s' \<and> SelectedSprite s' = Some b \<and>
           Sprites s' = Sprites s \<and> CurrentModeIndex s' = CurrentModeIndex s \<and>
           TransformControls_mode s' = TransformModes ! CurrentModeIndex s"
  using SelectSprite_Idle_inv [of "DeselectCurrentSprite s" b] Deselect_inv [OF inv] b
  by (simp add: Deselect_facts SelectSprite_via_Deselect [of b s])


subsection \<open>Arrays\<close>

lemma indexOf_ge: "- 1 \<le> indexOf xs x"
  by (induction xs) (auto simp: Let_def)

lemma indexOf_notin: "x \<notin> set xs \<Longrightarrow> indexOf xs x = - 1"
  by (induction xs) (auto simp: Let_def)

lemma indexOf_in:
  "x \<in> set xs \<Longrightarrow> 0 \<le> indexOf xs x \<and> indexOf xs x < int (length xs) \<and> xs ! nat (indexOf xs x) = x"
proof (induction xs)
  case Nil
  then show ?case by simp
next
  case (Cons y ys)
  show ?case
  proof (cases "y = x")
    case True
    then show ?thesis by simp
  next
    case False
    with Cons.prems have "x \<in> set ys" by simp
    from Cons.IH [OF this] False show ?thesis
      by (simp add: Let_def nat_add_distrib)
  qed
qed

lemma indexOf_nth: "distinct xs \<Longrightarrow> i < length xs \<Longrightarrow> indexOf xs (xs ! i) = int i"
proof (induction xs arbitrary: i)
  case Nil
  then show ?case by simp
next
  case (Cons y ys)
  show ?case
  proof (cases i)
    case 0
    then show ?thesis by simp
  next
    case (Suc j)
    with Cons.prems have j: "j < length ys" "distinct ys" "y \<notin> set ys" by simp_all
    then have "ys ! j \<noteq> y" by (metis nth_mem)
    with Cons.IH [OF j(2) j(1)] Suc show ?thesis by (simp add: Let_def)
  qed
qed

lemma splice1_indexOf: "x \<in> set xs \<Longrightarrow> splice1 (nat (indexOf xs x)) xs = remove1 x xs"
proof (induction xs)
  case Nil
  then show ?case by simp
next
  case (Cons y ys)
  show ?case
  proof (cases "y = x")
    case True
    then show ?thesis by (simp add: splice1_def)
  next
    case False
    with Cons.prems have x: "x \<in> set ys" by simp
    from indexOf_in [OF x] have "0 \<le> indexOf ys x" by simp
    with Cons.IH [OF x] False show ?thesis
      by (simp add: splice1_def Let_def nat_add_distrib)
  qed
qed

subsection \<open>Deleting\<close>

lemma Delete_Idle: "SelectedSprite s = None \<Longrightarrow> DeleteSelectedSprite s = s"
  by (simp add: DeleteSelectedSprite_def)

lemma Delete_Selected:
  assumes inv: "editor_inv s" and sel: "SelectedSprite s = Some a"
    and ol: "selectionOutline s a = Some ol" "ol \<in> set (children s a)"
  shows "DeleteSelectedSprite s =
     s\<lparr>parent := (parent s)(ol := None, a := None),
       children := (children s)(a := remove1 ol (children s a),
                                Scene := [GridHelper, AxesHelper, TransformControls] @ remove1 a (Sprites s)),
       Sprites := remove1 a (Sprites s),
       TransformControls_object := None, SelectedSprite := None\<rparr>"
proof -
  from inv sel have a: "a \<in> set (Sprites s)" by (simp add: editor_inv_def)
  from inv_sprite [OF inv a] have a3: "3 < a" by (simp add: sprite_wf_def)
  from inv have ch: "children s Scene = [GridHelper, AxesHelper, TransformControls] @ Sprites s"
    by (simp add: editor_inv_def)
  from indexOf_in [OF a] have i: "- 1 < indexOf (Sprites s) a" by simp
  show ?thesis
    using sel ol a a3 ch i
    by (simp add: DeleteSelectedSprite_def detach_def Object3D_remove_def Let_def
          splice1_indexOf fun_upd_twist)
qed


lemma Delete_inv:
  assumes inv: "editor_inv s" shows "editor_inv (DeleteSelectedSprite s)"
proof (cases "SelectedSprite s")
  case None
  with inv show ?thesis by (simp add: Delete_Idle)
next
  case (Some a)
  from inv_selected [OF inv Some] obtain ol where
    a: "a \<in> set (Sprites s)" and ol: "selectionOutline s a = Some ol" "outlines s a = [ol]"
    "ol \<in> set (children s a)" "kind s ol = LineSegments" "ol \<notin> set (Sprites s)" by blast
  define s' where "s' = s\<lparr>parent := (parent s)(ol := None, a := None),
       children := (children s)(a := remove1 ol (children s a),
                                Scene := [GridHelper, AxesHelper, TransformControls] @ remove1 a (Sprites s)),
       Sprites := remove1 a (Sprites s),
       TransformControls_object := None, SelectedSprite := None\<rparr>"
  have eq: "DeleteSelectedSprite s = s'"
    unfolding s'_def by (rule Delete_Selected [OF inv Some ol(1) ol(3)])
  from inv have d: "distinct (Sprites s)" by (simp add: editor_inv_def)
  have per: "sprite_wf s' p \<and> outline_ok s' p" if p: "p \<in> set (remove1 a (Sprites s))" for p
  proof -
    from p d have pS: "p \<in> set (Sprites s)" and pa: "p \<noteq> a" by auto
    from inv_sprite [OF inv pS] have w: "sprite_wf s p" and o: "outline_ok s p" by simp_all
    from pS ol(5) have pol: "p \<noteq> ol" by auto
    from w have p0: "p \<noteq> 0" by (simp add: sprite_wf_def)
    have "sprite_wf s' p"
      using w pol pa p0 unfolding sprite_wf_def s'_def by simp
    moreover have "outline_ok s' p"
      using o Some pa p0 by (simp add: outline_ok_def s'_def outlines_def)
    ultimately show ?thesis ..
  qed
  have "editor_inv s'"
    unfolding editor_inv_def
  proof (intro conjI ballI)
    show "children s' Scene = [GridHelper, AxesHelper, TransformControls] @ Sprites s'"
      by (simp add: s'_def)
    show "distinct (Sprites s')" using d by (simp add: s'_def)
    show "sprite_wf s' p" if "p \<in> set (Sprites s')" for p using per that by (simp add: s'_def)
    show "outline_ok s' p" if "p \<in> set (Sprites s')" for p using per that by (simp add: s'_def)
  qed (use inv in \<open>simp_all add: s'_def editor_inv_def\<close>)
  with eq show ?thesis by simp
qed

subsection \<open>What one key press does\<close>

lemma keydown_Space:
  "keydown ''Space'' c s =
     Inr (if TransformControls_object s \<noteq> None
          then s\<lparr>CurrentModeIndex := (CurrentModeIndex s + 1 + 1) mod 3,
                 TransformControls_mode := TransformModes ! ((CurrentModeIndex s + 1 + 1) mod 3)\<rparr>
          else s)"
  by (simp add: keydown_def keydown_first_def keydown_second_def setMode_def Let_def
        TransformModes_def mod_simps)

lemma keydown_Escape:
  "keydown ''Escape'' c s = Inr (DeselectCurrentSprite (detach s))"
  by (simp add: keydown_def keydown_first_def keydown_second_def Let_def)


lemma keydown_Delete:
  "keydown ''Delete'' c s = Inr (if SelectedSprite s \<noteq> None \<and> c then DeleteSelectedSprite s else s)"
  "keydown ''Backspace'' c s = Inr (if SelectedSprite s \<noteq> None \<and> c then DeleteSelectedSprite s else s)"
  by (simp_all add: keydown_def keydown_first_def keydown_second_def Let_def
        ShowDeleteConfirmation_def)

lemma keydown_Tab:
  "keydown ''Tab'' c s =
     (if Sprites s = [] then Inr s
      else SelectSprite
             (Sprites s ! (case SelectedSprite s of None \<Rightarrow> 0
                | Some sel \<Rightarrow> nat ((indexOf (Sprites s) sel + 1) mod int (length (Sprites s))))) s)"
  by (simp add: keydown_def keydown_first_def keydown_second_def Let_def cong: option.case_cong)

lemma keydown_other:
  "code \<notin> {''Space'', ''Escape'', ''Delete'', ''Backspace'', ''Tab''} \<Longrightarrow> keydown code c s = Inr s"
  by (simp add: keydown_def keydown_first_def keydown_second_def Let_def)


lemma detach_id: "TransformControls_object s = None \<Longrightarrow> detach s = s"
  by (simp add: detach_def)

lemma detach_Deselect:
  assumes "TransformControls_object s = SelectedSprite s"
  shows "DeselectCurrentSprite (detach s) = DeselectCurrentSprite s"
proof (cases "SelectedSprite s")
  case None
  with assms show ?thesis by (simp add: detach_id)
next
  case (Some a)
  then show ?thesis
    by (simp add: DeselectCurrentSprite_def detach_def Object3D_remove_def Let_def
      split: option.splits)
qed


subsection \<open>The add button\<close>

lemma CreatePlaneSprite_effect:
  "UserTexture s = Some t \<Longrightarrow>
   CreatePlaneSprite s =
     Some (next_obj s,
       s\<lparr>kind := (kind s)(next_obj s := Group, Suc (next_obj s) := Mesh,
                            Suc (Suc (next_obj s)) := Mesh),
         selectionOutline := (selectionOutline s)(next_obj s := None, Suc (next_obj s) := None,
                            Suc (Suc (next_obj s)) := None),
         next_obj := Suc (Suc (Suc (next_obj s))),
         parent := (parent s)(next_obj s := None, Suc (next_obj s) := Some (next_obj s),
                            Suc (Suc (next_obj s)) := Some (next_obj s)),
         children := (children s)(Suc (next_obj s) := [], Suc (Suc (next_obj s)) := [],
                            next_obj s := [Suc (next_obj s), Suc (Suc (next_obj s))]),
         isSprite := (isSprite s)(Suc (next_obj s) := False, Suc (Suc (next_obj s)) := False,
                            next_obj s := True),
         visiblePlane := (visiblePlane s)(Suc (next_obj s) := None, Suc (Suc (next_obj s)) := None,
                            next_obj s := Some (Suc (next_obj s)))\<rparr>)"
  by (simp add: CreatePlaneSprite_def new_object_def Object3D_add_def Let_def)

lemma addSpriteBtn_no_texture: "UserTexture s = None \<Longrightarrow> addSpriteBtn_click s = Inr s"
  by (simp add: addSpriteBtn_click_def CreatePlaneSprite_def)

lemma addSpriteBtn_effect:
  assumes "UserTexture s = Some t" "next_obj s \<noteq> 0"
  shows "addSpriteBtn_click s =
     SelectSprite (next_obj s)
       (s\<lparr>kind := (kind s)(next_obj s := Group, Suc (next_obj s) := Mesh,
                            Suc (Suc (next_obj s)) := Mesh),
         selectionOutline := (selectionOutline s)(next_obj s := None, Suc (next_obj s) := None,
                            Suc (Suc (next_obj s)) := None),
         next_obj := Suc (Suc (Suc (next_obj s))),
         isSprite := (isSprite s)(Suc (next_obj s) := False, Suc (Suc (next_obj s)) := False,
                            next_obj s := True),
         visiblePlane := (visiblePlane s)(Suc (next_obj s) := None, Suc (Suc (next_obj s)) := None,
                            next_obj s := Some (Suc (next_obj s))),
         parent := (parent s)(Suc (next_obj s) := Some (next_obj s),
                            Suc (Suc (next_obj s)) := Some (next_obj s), next_obj s := Some Scene),
         children := (children s)(Suc (next_obj s) := [], Suc (Suc (next_obj s)) := [],
                            next_obj s := [Suc (next_obj s), Suc (Suc (next_obj s))],
                            Scene := children s Scene @ [next_obj s]),
         Sprites := Sprites s @ [next_obj s]\<rparr>)"
  using assms
  by (simp add: addSpriteBtn_click_def CreatePlaneSprite_effect Object3D_add_def Let_def)


lemma addSpriteBtn_inv:
  assumes inv: "editor_inv s"
  shows "\<exists>s'. addSpriteBtn_click s = Inr s' \<and> editor_inv s' \<and>
           (case UserTexture s of
              None \<Rightarrow> s' = s
            | Some _ \<Rightarrow> Sprites s' = Sprites s @ [next_obj s] \<and> SelectedSprite s' = Some (next_obj s))"
proof (cases "UserTexture s")
  case None
  with inv show ?thesis by (simp add: addSpriteBtn_no_texture)
next
  case (Some t)
  define n where "n = next_obj s"
  from inv have n3: "3 < n" by (simp add: editor_inv_def n_def)
  define m where "m = s\<lparr>kind := (kind s)(n := Group, Suc n := Mesh, Suc (Suc n) := Mesh),
         selectionOutline := (selectionOutline s)(n := None, Suc n := None, Suc (Suc n) := None),
         next_obj := Suc (Suc (Suc n)),
         isSprite := (isSprite s)(Suc n := False, Suc (Suc n) := False, n := True),
         visiblePlane := (visiblePlane s)(Suc n := None, Suc (Suc n) := None, n := Some (Suc n)),
         parent := (parent s)(Suc n := Some n, Suc (Suc n) := Some n, n := Some Scene),
         children := (children s)(Suc n := [], Suc (Suc n) := [], n := [Suc n, Suc (Suc n)],
                            Scene := children s Scene @ [n]),
         Sprites := Sprites s @ [n]\<rparr>"
  have eq: "addSpriteBtn_click s = SelectSprite n m"
    unfolding m_def n_def using n3 by (intro addSpriteBtn_effect [OF Some]) (simp add: n_def)
  have fresh: "n \<notin> set (Sprites s)"
    using inv_sprite [OF inv, of n] by (auto simp: sprite_wf_def n_def)
  have selS: "SelectedSprite s \<noteq> Some n"
    using inv fresh by (auto simp: editor_inv_def split: option.splits)
  have per: "sprite_wf m p \<and> outline_ok m p" if p: "p \<in> set (Sprites s)" for p
  proof -
    from inv_sprite [OF inv p] have w: "sprite_wf s p" and o: "outline_ok s p" by simp_all
    from w have pn: "p < n" "p \<noteq> 0" by (simp_all add: sprite_wf_def n_def)
    from w have cn: "\<forall>c \<in> set (children s p). c < n" by (simp add: sprite_wf_def n_def)
    have f: "filter (\<lambda>c. kind m c = LineSegments) (children s p)
           = filter (\<lambda>c. kind s c = LineSegments) (children s p)"
      using cn by (intro filter_cong) (auto simp: m_def)
    have chm: "children m p = children s p" using pn by (simp add: m_def)
    have om: "outlines m p = outlines s p" by (simp add: outlines_def chm f)
    have sm: "SelectedSprite m = SelectedSprite s" "selectionOutline m p = selectionOutline s p"
      using pn by (simp_all add: m_def)
    have "sprite_wf m p"
      using w pn cn unfolding sprite_wf_def m_def n_def [symmetric]
      by (auto simp: less_Suc_eq)
    moreover have "outline_ok m p"
      using o unfolding outline_ok_def om sm .
    ultimately show ?thesis ..
  qed
  have new: "sprite_wf m n \<and> outline_ok m n"
    using n3 selS by (simp add: sprite_wf_def outline_ok_def outlines_def m_def)
  have "editor_inv m"
    unfolding editor_inv_def
  proof (intro conjI ballI)
    show "children m Scene = [GridHelper, AxesHelper, TransformControls] @ Sprites m"
      using inv n3 by (simp add: m_def editor_inv_def)
    show "distinct (Sprites m)" using inv fresh by (simp add: m_def editor_inv_def)
    show "sprite_wf m p" if "p \<in> set (Sprites m)" for p
      using per [of p] new that by (auto simp: m_def)
    show "outline_ok m p" if "p \<in> set (Sprites m)" for p
      using per [of p] new that by (auto simp: m_def)
    show "set_option (SelectedSprite m) \<subseteq> set (Sprites m)"
      using inv by (auto simp: m_def editor_inv_def)
  qed (use inv n3 in \<open>simp_all add: m_def editor_inv_def\<close>)
  moreover have "n \<in> set (Sprites m)" by (simp add: m_def)
  ultimately obtain s' where "SelectSprite n m = Inr s'" "editor_inv s'"
    "SelectedSprite s' = Some n" "Sprites s' = Sprites m"
    using SelectSprite_inv [of m n] by blast
  with eq Some show ?thesis by (simp add: m_def n_def)
qed

subsection \<open>What the listeners leave alone\<close>

lemma editor_inv_cong:
  assumes "editor_inv s"
    and "children s' = children s" "Sprites s' = Sprites s"
    "SelectedSprite s' = SelectedSprite s"
    "TransformControls_object s' = TransformControls_object s"
    "kind s' = kind s" "isSprite s' = isSprite s" "parent s' = parent s"
    "visiblePlane s' = visiblePlane s" "selectionOutline s' = selectionOutline s"
    "next_obj s' = next_obj s" "CurrentModeIndex s' = CurrentModeIndex s"
  shows "editor_inv s'"
proof -
  have o: "outlines s' = outlines s"
    by (simp add: outlines_def fun_eq_iff assms(2-))
  have w: "sprite_wf s' = sprite_wf s"
    by (simp add: sprite_wf_def fun_eq_iff assms(2-))
  have k: "outline_ok s' = outline_ok s"
    by (simp add: outline_ok_def fun_eq_iff assms(2-) o)
  from assms(1) show ?thesis
    by (simp add: editor_inv_def assms(2-) w k)
qed

lemma mousedown_inv: "editor_inv s \<Longrightarrow> editor_inv (mousedown b x y s)"
  by (erule editor_inv_cong) (simp_all add: mousedown_def)

lemma mouseup_inv: "editor_inv s \<Longrightarrow> editor_inv (mouseup s)"
  by (erule editor_inv_cong) (simp_all add: mouseup_def)

lemma mousemove_inv: "editor_inv s \<Longrightarrow> editor_inv (mousemove x y s)"
  by (erule editor_inv_cong)
     (simp_all add: mousemove_def UpdateCameraPosition_def Let_def)

lemma mouseleave_inv: "editor_inv s \<Longrightarrow> editor_inv (mouseleave s)"
  by (erule editor_inv_cong) (simp_all add: mouseleave_def)

lemma wheel_inv: "editor_inv s \<Longrightarrow> editor_inv (wheel d s)"
  by (erule editor_inv_cong)
     (simp_all add: wheel_def UpdateCameraPosition_def Let_def)

lemma dragging_changed_inv: "editor_inv s \<Longrightarrow> editor_inv (dragging_changed v s)"
  by (erule editor_inv_cong) (simp_all add: dragging_changed_def)

lemma resize_inv: "editor_inv s \<Longrightarrow> editor_inv (resize w h s)"
  by (erule editor_inv_cong) (simp_all add: resize_def)

lemma texture_loaded_inv: "editor_inv s \<Longrightarrow> editor_inv (texture_loaded t s)"
  by (erule editor_inv_cong) (simp_all add: texture_loaded_def)

lemma Deselect_frame:
  "Radius (DeselectCurrentSprite s) = Radius s"
  "WINDOW_WIDTH (DeselectCurrentSprite s) = WINDOW_WIDTH s"
  "WINDOW_HEIGHT (DeselectCurrentSprite s) = WINDOW_HEIGHT s"
  "Mouse (DeselectCurrentSprite s) = Mouse s"
  by (simp_all add: DeselectCurrentSprite_def detach_def Object3D_remove_def Let_def
        split: option.splits)

lemma SelectSprite_Idle_frame:
  assumes "SelectedSprite s = None" "SelectSprite b s = Inr s'"
  shows "Radius s' = Radius s \<and> WINDOW_WIDTH s' = WINDOW_WIDTH s \<and>
    WINDOW_HEIGHT s' = WINDOW_HEIGHT s \<and> Mouse s' = Mouse s \<and>
    CurrentModeIndex s' = CurrentModeIndex s \<and> Sprites s' = Sprites s \<and>
    next_obj s' = Suc (next_obj s)"
proof (cases "visiblePlane s b")
  case None
  with assms show ?thesis
    by (simp add: SelectSprite_def attach_def setMode_def Let_def)
next
  case (Some vp)
  with assms show ?thesis
    by (auto simp: SelectSprite_def attach_def setMode_def Object3D_add_def new_object_def
          Let_def)
qed

lemma SelectSprite_frame:
  assumes "SelectSprite b s = Inr s'"
  shows "Radius s' = Radius s" "WINDOW_WIDTH s' = WINDOW_WIDTH s"
    "WINDOW_HEIGHT s' = WINDOW_HEIGHT s" "Mouse s' = Mouse s"
    "CurrentModeIndex s' = CurrentModeIndex s" "Sprites s' = Sprites s"
    "next_obj s' = Suc (next_obj s)"
proof -
  from assms have "SelectSprite b (DeselectCurrentSprite s) = Inr s'"
    by (simp add: SelectSprite_via_Deselect [of b s])
  from SelectSprite_Idle_frame [OF _ this]
  show "Radius s' = Radius s" "WINDOW_WIDTH s' = WINDOW_WIDTH s"
    "WINDOW_HEIGHT s' = WINDOW_HEIGHT s" "Mouse s' = Mouse s"
    "CurrentModeIndex s' = CurrentModeIndex s" "Sprites s' = Sprites s"
    "next_obj s' = Suc (next_obj s)"
    by (simp_all add: Deselect_facts Deselect_frame)
qed

subsection \<open>The keyboard keeps the invariant\<close>

lemma Delete_frame:
  "Radius (DeleteSelectedSprite s) = Radius s"
  "WINDOW_WIDTH (DeleteSelectedSprite s) = WINDOW_WIDTH s"
  "WINDOW_HEIGHT (DeleteSelectedSprite s) = WINDOW_HEIGHT s"
  "next_obj (DeleteSelectedSprite s) = next_obj s"
  "CurrentModeIndex (DeleteSelectedSprite s) = CurrentModeIndex s"
  by (simp_all add: DeleteSelectedSprite_def detach_def Object3D_remove_def Let_def
        split: option.splits)

lemma Delete_Sprites_subset:
  "editor_inv s \<Longrightarrow> set (Sprites (DeleteSelectedSprite s)) \<subseteq> set (Sprites s)"
proof (cases "SelectedSprite s")
  case None
  then show ?thesis by (simp add: Delete_Idle)
next
  case (Some a)
  assume inv: "editor_inv s"
  from inv_selected [OF inv Some] obtain ol where
    "selectionOutline s a = Some ol" "ol \<in> set (children s a)" by blast
  from Delete_Selected [OF inv Some this]
  have "Sprites (DeleteSelectedSprite s) = remove1 a (Sprites s)" by simp
  then show ?thesis by (simp add: set_remove1_subset)
qed

lemma Tab_index_in_range:
  assumes "xs \<noteq> []"
  shows "(case sel of None \<Rightarrow> 0 | Some x \<Rightarrow> nat ((indexOf xs x + 1) mod int (length xs))) < length xs"
proof (cases sel)
  case None
  with assms show ?thesis by simp
next
  case (Some x)
  from assms have "0 < int (length xs)" by simp
  then have "(indexOf xs x + 1) mod int (length xs) < int (length xs)"
    by (rule pos_mod_bound)
  moreover from \<open>0 < int (length xs)\<close> have "0 \<le> (indexOf xs x + 1) mod int (length xs)"
    by (rule pos_mod_sign)
  ultimately show ?thesis using Some by simp
qed

lemma five_cases:
  assumes "x = a \<Longrightarrow> P" "x = b \<Longrightarrow> P" "x = c \<Longrightarrow> P" "x = d \<Longrightarrow> P" "x = e \<Longrightarrow> P"
    "x \<notin> {a, b, c, d, e} \<Longrightarrow> P"
  shows P
  using assms by blast

lemma keydown_cases:
  obtains "code = ''Space''" | "code = ''Escape''" | "code = ''Delete''" | "code = ''Backspace''"
    | "code = ''Tab''"
    | "code \<notin> {''Space'', ''Escape'', ''Delete'', ''Backspace'', ''Tab''}"
  by (rule five_cases [of code "''Space''" _ "''Escape''" "''Delete''" "''Backspace''" "''Tab''"])

lemma mode_inv:
  assumes "editor_inv s" "i < length TransformModes"
  shows "editor_inv (s\<lparr>CurrentModeIndex := i, TransformControls_mode := m\<rparr>)"
proof -
  from assms(1) have "editor_inv (s\<lparr>TransformControls_mode := m\<rparr>)"
    by (rule editor_inv_cong) simp_all
  then show ?thesis using assms(2) by (simp add: editor_inv_def sprite_wf_def outline_ok_def outlines_def)
qed

lemma keydown_inv:
  assumes inv: "editor_inv s"
  shows "\<exists>s'. keydown code c s = Inr s' \<and> editor_inv s' \<and>
           set (Sprites s') \<subseteq> set (Sprites s) \<and> next_obj s \<le> next_obj s' \<and>
           Radius s' = Radius s \<and> WINDOW_WIDTH s' = WINDOW_WIDTH s \<and>
           WINDOW_HEIGHT s' = WINDOW_HEIGHT s"
proof (cases code rule: keydown_cases)
  case 1
  have "(CurrentModeIndex s + 1 + 1) mod 3 < length TransformModes"
    by (simp add: TransformModes_def)
  with inv have "editor_inv (s\<lparr>CurrentModeIndex := (CurrentModeIndex s + 1 + 1) mod 3,
      TransformControls_mode := TransformModes ! ((CurrentModeIndex s + 1 + 1) mod 3)\<rparr>)"
    by (rule mode_inv)
  with inv 1 show ?thesis by (simp add: keydown_Space)
next
  case 2
  from inv have "TransformControls_object s = SelectedSprite s" by (rule inv_gizmo)
  then have "DeselectCurrentSprite (detach s) = DeselectCurrentSprite s"
    by (rule detach_Deselect)
  with inv 2 show ?thesis
    by (simp add: keydown_Escape Deselect_inv Deselect_facts Deselect_frame)
next
  case 3
  with inv show ?thesis
    by (simp add: keydown_Delete Delete_inv Delete_frame Delete_Sprites_subset)
next
  case 4
  with inv show ?thesis
    by (simp add: keydown_Delete Delete_inv Delete_frame Delete_Sprites_subset)
next
  case 5
  show ?thesis
  proof (cases "Sprites s = []")
    case True
    with inv 5 show ?thesis by (simp add: keydown_Tab)
  next
    case False
    define k where "k = (case SelectedSprite s of None \<Rightarrow> 0
                | Some sel \<Rightarrow> nat ((indexOf (Sprites s) sel + 1) mod int (length (Sprites s))))"
    from Tab_index_in_range [OF False] have "k < length (Sprites s)" by (simp add: k_def)
    then have "Sprites s ! k \<in> set (Sprites s)" by simp
    from SelectSprite_inv [OF inv this] obtain s' where
      s': "SelectSprite (Sprites s ! k) s = Inr s'" "editor_inv s'" "Sprites s' = Sprites s"
      by blast
    from SelectSprite_frame [OF s'(1)] s' 5 False show ?thesis
      by (simp add: keydown_Tab k_def)
  qed
next
  case 6
  with inv show ?thesis by (simp add: keydown_other)
qed

subsection \<open>Outlines in the scene\<close>

lemma filter_isSprite_Sprites:
  assumes "editor_inv s"
  shows "filter (isSprite s) (children s Scene) = Sprites s"
proof -
  have "filter (isSprite s) (Sprites s) = Sprites s"
    using inv_sprite [OF assms] by (auto simp: sprite_wf_def filter_id_conv)
  moreover from assms have "\<not> isSprite s GridHelper" "\<not> isSprite s AxesHelper"
    "\<not> isSprite s TransformControls"
    unfolding editor_inv_def by blast+
  ultimately show ?thesis by (simp add: inv_scene_children [OF assms])
qed

lemma concat_map_single:
  "distinct xs \<Longrightarrow> \<forall>p \<in> set xs. p \<noteq> a \<longrightarrow> f p = [] \<Longrightarrow>
   concat (map f xs) = (if a \<in> set xs then f a else [])"
  by (induction xs) auto

lemma scene_outlines_Idle:
  assumes "editor_inv s" "SelectedSprite s = None"
  shows "scene_outlines s = []"
proof -
  have "\<forall>p \<in> set (Sprites s). outlines s p = []"
    using inv_sprite [OF assms(1)] assms(2) by (simp add: outline_ok_def)
  then show ?thesis
    by (simp add: scene_outlines_def filter_isSprite_Sprites [OF assms(1)])
qed

lemma scene_outlines_Selected:
  assumes "editor_inv s" "SelectedSprite s = Some a"
  shows "scene_outlines s = outlines s a \<and> length (outlines s a) = 1"
proof -
  from inv_selected [OF assms] obtain ol where a: "a \<in> set (Sprites s)"
    and ol: "outlines s a = [ol]" by blast
  have "\<forall>p \<in> set (Sprites s). p \<noteq> a \<longrightarrow> outlines s p = []"
    using inv_sprite [OF assms(1)] assms(2) by (simp add: outline_ok_def)
  with inv_distinct [OF assms(1)] a
  have "concat (map (outlines s) (Sprites s)) = outlines s a"
    by (simp add: concat_map_single [where a = a])
  with ol show ?thesis
    by (simp add: scene_outlines_def filter_isSprite_Sprites [OF assms(1)])
qed

lemma distinct_filter_eq_le1: "distinct xs \<Longrightarrow> length (filter (\<lambda>p. p = a) xs) \<le> 1"
  by (induction xs) (auto simp: filter_empty_conv)

lemma inv_selection_inv:
  assumes inv: "editor_inv s"
  shows "selection_inv s"
proof -
  have 1: "(outlines s p \<noteq> []) = (SelectedSprite s = Some p)" if "p \<in> set (Sprites s)" for p
    using inv_sprite [OF inv that] by (auto simp: outline_ok_def)
  then have "filter (\<lambda>p. outlines s p \<noteq> []) (Sprites s)
           = filter (\<lambda>p. SelectedSprite s = Some p) (Sprites s)"
    by (intro filter_cong) auto
  moreover have "length (filter (\<lambda>p. SelectedSprite s = Some p) (Sprites s)) \<le> 1"
  proof (cases "SelectedSprite s")
    case None
    then show ?thesis by simp
  next
    case (Some a)
    have "filter (\<lambda>p. SelectedSprite s = Some p) (Sprites s) = filter (\<lambda>p. p = a) (Sprites s)"
      using Some by (intro filter_cong) auto
    with distinct_filter_eq_le1 [OF inv_distinct [OF inv], of a] show ?thesis by simp
  qed
  ultimately have 3: "length (filter (\<lambda>p. outlines s p \<noteq> []) (Sprites s)) \<le> 1" by simp
  from 1 3 inv_gizmo [OF inv] show ?thesis by (simp add: selection_inv_def)
qed

subsection \<open>The walk to the top-level parent\<close>

lemma top_level_parent_terminates:
  fixes depth :: "obj \<Rightarrow> nat"
  assumes "\<forall>p q. par p = Some q \<longrightarrow> depth q < depth p"
  shows "\<exists>r. top_level_parent par p = Some r"
proof (induction "depth p :: nat" arbitrary: p rule: less_induct)
  case less
  show ?case
  proof (cases "par p")
    case None
    then show ?thesis by (subst top_level_parent.simps) simp
  next
    case (Some q)
    show ?thesis
    proof (cases "q = Scene")
      case True
      with Some show ?thesis by (subst top_level_parent.simps) simp
    next
      case False
      from assms Some have "depth q < depth p" by blast
      from less [OF this] obtain r where "top_level_parent par q = Some r" by blast
      with Some False show ?thesis by (subst top_level_parent.simps) simp
    qed
  qed
qed

lemma find_sprite_no_sprite:
  assumes "\<forall>h \<in> set hs. \<exists>p. top_level_parent (parent s) h = Some p \<and> \<not> isSprite s p"
  shows "find_sprite s hs = Some None"
  using assms by (induction hs) auto

lemma find_sprite_Mouse [simp]: "find_sprite (s\<lparr>Mouse := m\<rparr>) hs = find_sprite s hs"
  by (induction hs) (simp_all split: option.splits)

subsection \<open>Events and runs\<close>

lemma step_ok_refl: "step_ok s s"
  by (simp add: step_ok_def)

lemma step_ok_trans: "step_ok s s' \<Longrightarrow> step_ok s' s'' \<Longrightarrow> step_ok s s''"
  unfolding step_ok_def by (auto; fastforce)

lemma step_okI:
  assumes "next_obj s \<le> next_obj s'" "WINDOW_WIDTH s' = WINDOW_WIDTH s"
    "WINDOW_HEIGHT s' = WINDOW_HEIGHT s" "Radius s' = Radius s"
    "set (Sprites s') \<subseteq> set (Sprites s) \<union> {next_obj s ..< next_obj s'}"
  shows "step_ok s s'"
  using assms by (simp add: step_ok_def)

lemma js_max_idem: "js_max (Num a) (js_max (Num a) r) = js_max (Num a) r"
  by (cases r) simp_all

lemma js_max_fixed:
  "r = js_max (Num a) r \<longleftrightarrow> r = NaN \<or> r = PosInf \<or> (\<exists>x. r = Num x \<and> a \<le> x)"
  by (cases r) (auto simp: max_def)

lemma Radius_wheel:
  "Radius (wheel dY s) =
     (if IsTransformActive s then Radius s
      else js_max (Num 1.1)
             (js_add (Radius s)
                (js_mul (Num (if dY > 0 then 1 else - 1))
                   (js_mul (Num ZOOMINTENSITY)
                      (js_max (Num 0.1) (js_div (js_sub (Radius s) (Num 1)) (Num 10)))))))"
  by (simp add: wheel_def UpdateCameraPosition_def Let_def)

lemma wheel_floor:
  "Radius (wheel dY s) = Radius s \<or> Radius (wheel dY s) = js_max (Num 1.1) (Radius (wheel dY s))"
proof (cases "IsTransformActive s")
  case True
  then show ?thesis by (simp add: Radius_wheel)
next
  case False
  then show ?thesis by (simp only: Radius_wheel if_False js_max_idem) simp
qed

lemma canvas_step_ok:
  "step_ok s (mousedown b x y s)"
  "step_ok s (mouseup s)"
  "step_ok s (mousemove x y s)"
  "step_ok s (mouseleave s)"
  "step_ok s (dragging_changed v s)"
  "step_ok s (resize w h s)"
  "step_ok s (texture_loaded t s)"
  by (simp_all add: step_ok_def mousedown_def mouseup_def mousemove_def mouseleave_def
        dragging_changed_def resize_def texture_loaded_def UpdateCameraPosition_def Let_def)

lemma wheel_step_ok: "step_ok s (wheel d s)"
  using wheel_floor [of d s]
  by (simp add: step_ok_def) (simp add: wheel_def UpdateCameraPosition_def Let_def)

lemma keydown_step:
  assumes "editor_inv s"
  shows "\<exists>s'. keydown code c s = Inr s' \<and> editor_inv s' \<and> step_ok s s'"
  using keydown_inv [OF assms, of code c] by (auto simp: step_ok_def)

lemma Delete_step_ok: "editor_inv s \<Longrightarrow> step_ok s (DeleteSelectedSprite s)"
  using Delete_Sprites_subset [of s] by (auto simp: step_ok_def Delete_frame)

lemma deleteBtn_step:
  assumes "editor_inv s"
  shows "editor_inv (deleteBtn_click c s) \<and> step_ok s (deleteBtn_click c s)"
  using assms
  by (simp add: deleteBtn_click_def ShowDeleteConfirmation_def Delete_inv Delete_step_ok step_ok_refl)

lemma mode_inv':
  assumes "editor_inv s" "i < length TransformModes"
  shows "editor_inv (s\<lparr>TransformControls_mode := m, CurrentModeIndex := i\<rparr>)"
proof -
  from assms(1) have "editor_inv (s\<lparr>TransformControls_mode := m\<rparr>)"
    by (rule editor_inv_cong) simp_all
  then show ?thesis using assms(2)
    by (simp add: editor_inv_def sprite_wf_def outline_ok_def outlines_def)
qed

lemma modeBtn_step:
  assumes "editor_inv s" "k < length ModeButtons"
  shows "editor_inv (modeBtn_click (ModeButtons ! k) s) \<and> step_ok s (modeBtn_click (ModeButtons ! k) s)"
proof -
  from assms(2) consider "k = 0" | "k = 1" | "k = 2"
    by (auto simp: ModeButtons_def less_Suc_eq numeral_3_eq_3)
  then show ?thesis
  proof cases
    case 1
    with mode_inv' [OF assms(1), of 0 "''translate''"] assms(1) show ?thesis
      by (simp add: ModeButtons_def TransformModes_def setMode_def step_ok_def)
  next
    case 2
    with mode_inv' [OF assms(1), of 1 "''rotate''"] assms(1) show ?thesis
      by (simp add: ModeButtons_def TransformModes_def setMode_def step_ok_def)
  next
    case 3
    with mode_inv' [OF assms(1), of 2 "''scale''"] assms(1) show ?thesis
      by (simp add: ModeButtons_def TransformModes_def setMode_def step_ok_def)
  qed
qed


lemma addSpriteBtn_step:
  assumes inv: "editor_inv s"
  shows "\<exists>s'. addSpriteBtn_click s = Inr s' \<and> editor_inv s' \<and> step_ok s s'"
proof (cases "UserTexture s")
  case None
  with inv show ?thesis by (simp add: addSpriteBtn_no_texture step_ok_refl)
next
  case (Some t)
  from addSpriteBtn_inv [OF inv] Some obtain s' where
    s': "addSpriteBtn_click s = Inr s'" "editor_inv s'" "Sprites s' = Sprites s @ [next_obj s]"
    by auto
  from inv have "next_obj s \<noteq> 0" by (simp add: editor_inv_def)
  from addSpriteBtn_effect [OF Some this] s'(1) obtain m where
    m: "SelectSprite (next_obj s) m = Inr s'" "Radius m = Radius s"
       "WINDOW_WIDTH m = WINDOW_WIDTH s" "WINDOW_HEIGHT m = WINDOW_HEIGHT s"
       "next_obj m = Suc (Suc (Suc (next_obj s)))"
    by simp
  from SelectSprite_frame [OF m(1)] m(2-) have
    f: "Radius s' = Radius s" "WINDOW_WIDTH s' = WINDOW_WIDTH s"
       "WINDOW_HEIGHT s' = WINDOW_HEIGHT s" "next_obj s < next_obj s'"
    by simp_all
  have "set (Sprites s') \<subseteq> set (Sprites s) \<union> {next_obj s ..< next_obj s'}"
    using f(4) by (auto simp: s'(3))
  with f have "step_ok s s'"
    by (simp add: step_ok_def)
  with s' show ?thesis by blast
qed

lemma dispatch_step:
  assumes inv: "editor_inv s"
  shows "\<exists>s'. dispatch e s = Inr s' \<and> editor_inv s' \<and> step_ok s s'"
proof (cases e)
  case (MouseDown b x y)
  with inv show ?thesis by (simp add: mousedown_inv canvas_step_ok)
next
  case MouseUp
  with inv show ?thesis by (simp add: mouseup_inv canvas_step_ok)
next
  case (MouseMove x y)
  with inv show ?thesis by (simp add: mousemove_inv canvas_step_ok)
next
  case MouseLeave
  with inv show ?thesis by (simp add: mouseleave_inv canvas_step_ok)
next
  case (Wheel d)
  with inv show ?thesis by (simp add: wheel_inv wheel_step_ok)
next
  case (DraggingChanged v)
  with inv show ?thesis by (simp add: dragging_changed_inv canvas_step_ok)
next
  case (Resize w h)
  with inv show ?thesis by (simp add: resize_inv canvas_step_ok)
next
  case (TextureLoaded t)
  with inv show ?thesis by (simp add: texture_loaded_inv canvas_step_ok)
next
  case AddSpriteBtn
  with addSpriteBtn_step [OF inv] show ?thesis by simp
next
  case (KeyDown code c)
  with keydown_step [OF inv, of code c] show ?thesis by simp
next
  case (ModeBtn k)
  with inv modeBtn_step [OF inv, of k] show ?thesis by (simp add: step_ok_refl)
next
  case (DeleteBtn c)
  with deleteBtn_step [OF inv, of c] show ?thesis by simp
qed

lemma run_step:
  assumes "editor_inv s"
  shows "\<exists>s'. run evs s = Inr s' \<and> editor_inv s' \<and> step_ok s s'"
  using assms
proof (induction evs arbitrary: s)
  case Nil
  then show ?case by (simp add: step_ok_refl)
next
  case (Cons e evs)
  from dispatch_step [OF Cons.prems, of e] obtain s1 where
    s1: "dispatch e s = Inr s1" "editor_inv s1" "step_ok s s1" by blast
  from Cons.IH [OF s1(2)] obtain s' where
    s': "run evs s1 = Inr s'" "editor_inv s'" "step_ok s1 s'" by blast
  from s1 s' step_ok_trans [OF s1(3) s'(3)] show ?case by simp
qed

subsection \<open>The radius as a JavaScript number\<close>

lemma MAX_VALUE_ge: "1000 \<le> MAX_VALUE"
proof -
  have "(2::real) ^ 10 \<le> 2 ^ 1023" by (rule power_increasing) simp_all
  moreover have "(1::real) \<le> 2 - 1 / 2 ^ 52" by simp
  ultimately have "1 * (2::real) ^ 10 \<le> (2 - 1 / 2 ^ 52) * 2 ^ 1023"
    by (intro mult_mono) simp_all
  then show ?thesis unfolding MAX_VALUE_def by simp
qed

lemma MAX_VALUE_less: "MAX_VALUE < 2 ^ 1024"
proof -
  have "(2 - 1 / 2 ^ 52) * (2::real) ^ 1023 < 2 * 2 ^ 1023"
    by (rule mult_strict_right_mono) simp_all
  also have "\<dots> = 2 ^ Suc 1023" by (simp only: power_Suc)
  also have "Suc 1023 = 1024" by simp
  finally show ?thesis unfolding MAX_VALUE_def .
qed

lemma overflow_Num: "\<bar>x\<bar> \<le> MAX_VALUE \<Longrightarrow> overflow x = Num x"
  by (auto simp: overflow_def)

lemma overflow_small: "\<bar>x\<bar> \<le> 1000 \<Longrightarrow> overflow x = Num x"
  using MAX_VALUE_ge by (intro overflow_Num) simp

lemma js_max_overflow: "0 \<le> a \<Longrightarrow> a \<le> x \<Longrightarrow> js_max (Num a) (overflow x) = overflow x"
  using MAX_VALUE_ge by (simp add: overflow_def max_def)

lemma wheel_IsTransformActive: "IsTransformActive (wheel d s) = IsTransformActive s"
  by (simp add: wheel_def UpdateCameraPosition_def Let_def)

lemma wheel_down_Num:
  assumes "\<not> IsTransformActive s" "Radius s = Num r" "2 \<le> r" "r \<le> MAX_VALUE" "0 < d"
  shows "Radius (wheel d s) = overflow (r + (r - 1) / 20)"
proof -
  have 1: "js_sub (Num r) (Num 1) = Num (r - 1)"
    using assms(3,4) by (simp add: js_sub_def overflow_Num)
  have 2: "js_div (Num (r - 1)) (Num 10) = Num ((r - 1) / 10)"
    using assms(3,4) by (simp add: overflow_Num)
  have 3: "js_max (Num 0.1) (Num ((r - 1) / 10)) = Num ((r - 1) / 10)"
    using assms(3) by (simp add: max_def)
  have 4: "js_mul (Num ZOOMINTENSITY) (Num ((r - 1) / 10)) = Num ((r - 1) / 20)"
    using assms(3,4) by (simp add: ZOOMINTENSITY_def overflow_Num)
  have 5: "js_mul (Num 1) (Num ((r - 1) / 20)) = Num ((r - 1) / 20)"
    using assms(3,4) by (simp add: overflow_Num)
  have 6: "js_add (Num r) (Num ((r - 1) / 20)) = overflow (r + (r - 1) / 20)"
    by simp
  have "1.1 \<le> r + (r - 1) / 20" using assms(3) by (simp add: field_simps)
  then have 7: "js_max (Num 1.1) (overflow (r + (r - 1) / 20)) = overflow (r + (r - 1) / 20)"
    by (intro js_max_overflow) simp_all
  from assms(1,5) show ?thesis
    by (simp only: Radius_wheel assms(2) if_False if_True 1 2 3 4 5 6 7)
qed

lemma wheel_down_PosInf:
  assumes "\<not> IsTransformActive s" "Radius s = PosInf" "0 < d"
  shows "Radius (wheel d s) = PosInf"
  using assms by (simp add: Radius_wheel js_sub_def ZOOMINTENSITY_def)

lemma wheel_up_PosInf:
  assumes "\<not> IsTransformActive s" "Radius s = PosInf" "\<not> 0 < d"
  shows "Radius (wheel d s) = NaN"
  using assms by (simp add: Radius_wheel js_sub_def ZOOMINTENSITY_def)

lemma Camera_position_NaN:
  "\<not> IsTransformActive s \<Longrightarrow> Radius (wheel d s) = NaN \<Longrightarrow>
   Camera_position (wheel d s) = (NaN, NaN, NaN)"
  by (simp add: wheel_def UpdateCameraPosition_def Let_def)

lemma Radius_zoom_out:
  assumes "0 < d"
  shows "Radius ((wheel d ^^ n) (startup w h)) = overflow (1 + 9 * (21 / 20) ^ n) \<and>
         \<not> IsTransformActive ((wheel d ^^ n) (startup w h))"
proof (induction n)
  case 0
  show ?case by (simp add: startup_def UpdateCameraPosition_def overflow_small)
next
  case (Suc n)
  define t where "t = (wheel d ^^ n) (startup w h)"
  define r :: real where "r = 1 + 9 * (21 / 20) ^ n"
  from Suc have t: "Radius t = overflow r" "\<not> IsTransformActive t"
    by (simp_all add: t_def r_def)
  have q: "(1::real) \<le> (21 / 20) ^ n" by (rule one_le_power) simp
  then have r: "10 \<le> r" by (simp add: r_def)
  have r': "r + (r - 1) / 20 = 1 + 9 * (21 / 20) ^ Suc n" by (simp add: r_def)
  have "Radius (wheel d t) = overflow (r + (r - 1) / 20)"
  proof (cases "r \<le> MAX_VALUE")
    case True
    with r t(1) have "Radius t = Num r" by (simp add: overflow_def)
    from wheel_down_Num [OF t(2) this _ True assms] r show ?thesis by simp
  next
    case False
    with t(1) have "Radius t = PosInf" by (simp add: overflow_def)
    from wheel_down_PosInf [OF t(2) this assms] have "Radius (wheel d t) = PosInf" .
    moreover from False r have "MAX_VALUE < r + (r - 1) / 20" by (simp add: field_simps)
    ultimately show ?thesis by (simp add: overflow_def)
  qed
  then show ?case using t(2) unfolding r' t_def
    by (simp add: wheel_IsTransformActive)
qed

lemma zoom_out_overflows: "MAX_VALUE < 1 + 9 * (21 / 20 :: real) ^ 15360"
proof -
  have a: "(2::real) < (21 / 20) ^ 15" by (simp add: power_divide)
  have "(2::real) ^ 1024 < ((21 / 20) ^ 15) ^ 1024"
    using a by (intro power_strict_mono) simp_all
  also have "\<dots> = (21 / 20) ^ (15 * 1024)" by (simp only: power_mult)
  also have "15 * 1024 = (15360::nat)" by simp
  finally have "(2::real) ^ 1024 < (21 / 20) ^ 15360" .
  moreover have "(0::real) \<le> (21 / 20) ^ 15360" by (rule zero_le_power) simp
  ultimately have "(2::real) ^ 1024 < 1 + 9 * (21 / 20) ^ 15360" by linarith
  with MAX_VALUE_less show ?thesis by (rule less_trans)
qed

lemma run_append:
  "run (es @ fs) s = (case run es s of Inl err \<Rightarrow> Inl err | Inr s' \<Rightarrow> run fs s')"
  by (induction es arbitrary: s) (simp_all split: sum.splits)

lemma run_Wheels: "run (replicate n (Wheel d)) s = Inr ((wheel d ^^ n) s)"
  by (induction n arbitrary: s) (simp_all add: funpow_swap1)

lemma run_Radius_clamped:
  "\<exists>s'. run evs (startup w h) = Inr s' \<and>
        (Radius s' = NaN \<or> Radius s' = PosInf \<or> (\<exists>x. Radius s' = Num x \<and> 1.1 \<le> x))"
proof -
  from run_step [OF startup_inv, of evs w h] obtain s' where
    s': "run evs (startup w h) = Inr s'" "step_ok (startup w h) s'" by blast
  have "Radius (startup w h) = Num 10" by (simp add: startup_def UpdateCameraPosition_def)
  with s'(2) have "Radius s' = Num 10 \<or> Radius s' = js_max (Num 1.1) (Radius s')"
    by (simp add: step_ok_def)
  then have "Radius s' = NaN \<or> Radius s' = PosInf \<or> (\<exists>x. Radius s' = Num x \<and> 1.1 \<le> x)"
  proof
    assume "Radius s' = Num 10"
    then show ?thesis by simp
  next
    assume "Radius s' = js_max (Num 1.1) (Radius s')"
    then show ?thesis by (simp only: js_max_fixed)
  qed
  with s'(1) show ?thesis by blast
qed

subsection \<open>The four states are reached and satisfy the invariant\<close>

lemma two_sprites_inv: "editor_inv two_sprites"
  by (simp add: editor_inv_def sprite_wf_def outline_ok_def outlines_def two_sprites_def
        startup_def UpdateCameraPosition_def TransformModes_def)

lemma three_sprites_inv: "editor_inv three_sprites"
  by (simp add: editor_inv_def sprite_wf_def outline_ok_def outlines_def three_sprites_def
        startup_def UpdateCameraPosition_def TransformModes_def)

lemma two_sprites_facts:
  "Sprites two_sprites = [4, 8]" "SelectedSprite two_sprites = Some 8"
  "TransformControls_object two_sprites = Some 8" "CurrentModeIndex two_sprites = 0"
  "TransformControls_mode two_sprites = ''translate''"
  "\<not> IsTransformActive two_sprites"
  "WINDOW_WIDTH two_sprites = 800" "WINDOW_HEIGHT two_sprites = 600"
  by (simp_all add: two_sprites_def startup_def UpdateCameraPosition_def)

lemma three_sprites_facts:
  "Sprites three_sprites = [4, 8, 12]" "SelectedSprite three_sprites = None"
  by (simp_all add: three_sprites_def startup_def UpdateCameraPosition_def)

lemma startup_fields:
  "UserTexture (startup w h) = None" "next_obj (startup w h) = 4"
  "SelectedSprite (startup w h) = None" "Sprites (startup w h) = []"
  by (simp_all add: startup_def UpdateCameraPosition_def)

lemma one_sprite_reachable:
  "addSpriteBtn_click (texture_loaded 0 (startup 800 600)) = Inr one_sprite"
proof -
  define s1 where "s1 = texture_loaded 0 (startup 800 600)"
  have f: "UserTexture s1 = Some 0" "next_obj s1 = 4" "next_obj s1 \<noteq> 0"
    by (simp_all add: s1_def texture_loaded_def startup_fields)
  note e = addSpriteBtn_effect [OF f(1) f(3), unfolded f(2)]
  show ?thesis
    unfolding s1_def [symmetric] e
    apply (subst SelectSprite_Idle [where vp = 5])
       apply (simp add: s1_def texture_loaded_def startup_fields)
      apply (simp add: s1_def texture_loaded_def startup_fields)
     apply (simp add: s1_def texture_loaded_def startup_fields)
    apply (simp add: one_sprite_def s1_def texture_loaded_def startup_def UpdateCameraPosition_def
        TransformModes_def fun_eq_iff)
    done
qed

lemma two_sprites_reachable: "addSpriteBtn_click one_sprite = Inr two_sprites"
proof -
  have f: "UserTexture one_sprite = Some 0" "next_obj one_sprite = 8" "next_obj one_sprite \<noteq> 0"
    by (simp_all add: one_sprite_def)
  note e = addSpriteBtn_effect [OF f(1) f(3), unfolded f(2)]
  show ?thesis
    unfolding e
    apply (subst SelectSprite_via_Deselect)
    apply (subst Deselect_Selected [where a = 4 and ol = 7])
       apply (simp add: one_sprite_def)
      apply (simp add: one_sprite_def)
     apply (simp add: one_sprite_def)
    apply (subst SelectSprite_Idle [where vp = 9])
       apply (simp add: one_sprite_def)
      apply (simp add: one_sprite_def)
     apply (simp add: one_sprite_def)
    apply (simp add: one_sprite_def two_sprites_def startup_def UpdateCameraPosition_def
        TransformModes_def fun_eq_iff)
    done
qed

lemma three_sprites_selected_reachable:
  "addSpriteBtn_click two_sprites = Inr three_sprites_selected"
proof -
  have f: "UserTexture two_sprites = Some 0" "next_obj two_sprites = 12" "next_obj two_sprites \<noteq> 0"
    by (simp_all add: two_sprites_def)
  note e = addSpriteBtn_effect [OF f(1) f(3), unfolded f(2)]
  show ?thesis
    unfolding e
    apply (subst SelectSprite_via_Deselect)
    apply (subst Deselect_Selected [where a = 8 and ol = 11])
       apply (simp add: two_sprites_def)
      apply (simp add: two_sprites_def)
     apply (simp add: two_sprites_def)
    apply (subst SelectSprite_Idle [where vp = 13])
       apply (simp add: two_sprites_def)
      apply (simp add: two_sprites_def)
     apply (simp add: two_sprites_def)
    apply (simp add: two_sprites_def three_sprites_selected_def startup_def
        UpdateCameraPosition_def TransformModes_def fun_eq_iff)
    done
qed

lemma three_sprites_reachable:
  "keydown ''Escape'' False three_sprites_selected = Inr three_sprites"
  unfolding keydown_Escape
  apply (subst detach_Deselect)
   apply (simp add: three_sprites_selected_def)
  apply (subst Deselect_Selected [where a = 12 and ol = 15])
     apply (simp add: three_sprites_selected_def)
    apply (simp add: three_sprites_selected_def)
   apply (simp add: three_sprites_selected_def)
  apply (simp add: three_sprites_selected_def three_sprites_def startup_def
      UpdateCameraPosition_def fun_eq_iff)
  done

lemma states_reachable:
  "run [TextureLoaded 0, AddSpriteBtn, AddSpriteBtn] (startup 800 600) = Inr two_sprites"
  "run [TextureLoaded 0, AddSpriteBtn, AddSpriteBtn, AddSpriteBtn, KeyDown ''Escape'' False]
     (startup 800 600) = Inr three_sprites"
  by (simp_all add: one_sprite_reachable two_sprites_reachable three_sprites_selected_reachable
      three_sprites_reachable)

subsection \<open>Cycling with Tab\<close>

lemma Tab_step:
  assumes inv: "editor_inv s" and ne: "Sprites s \<noteq> []"
  shows "\<exists>s'. keydown ''Tab'' c s = Inr s' \<and> editor_inv s' \<and> Sprites s' = Sprites s \<and>
           SelectedSprite s' =
             Some (Sprites s ! (case SelectedSprite s of None \<Rightarrow> 0
                | Some sel \<Rightarrow> nat ((indexOf (Sprites s) sel + 1) mod int (length (Sprites s)))))"
proof -
  define k where "k = (case SelectedSprite s of None \<Rightarrow> 0
                | Some sel \<Rightarrow> nat ((indexOf (Sprites s) sel + 1) mod int (length (Sprites s))))"
  from Tab_index_in_range [OF ne] have "k < length (Sprites s)" by (simp add: k_def)
  then have "Sprites s ! k \<in> set (Sprites s)" by simp
  from SelectSprite_inv [OF inv this] obtain s' where
    "SelectSprite (Sprites s ! k) s = Inr s'" "editor_inv s'" "Sprites s' = Sprites s"
    "SelectedSprite s' = Some (Sprites s ! k)" by blast
  with ne show ?thesis
    by (simp add: keydown_Tab k_def [symmetric])
qed

lemma Tab_from_Idle:
  assumes "editor_inv s" "Sprites s \<noteq> []" "SelectedSprite s = None"
  shows "\<exists>s'. keydown ''Tab'' c s = Inr s' \<and> editor_inv s' \<and> Sprites s' = Sprites s \<and>
           SelectedSprite s' = Some (Sprites s ! 0)"
  using Tab_step [OF assms(1,2), of c] assms(3) by simp

lemma Tab_from_index:
  assumes inv: "editor_inv s" and i: "i < length (Sprites s)"
    and sel: "SelectedSprite s = Some (Sprites s ! i)"
  shows "\<exists>s'. keydown ''Tab'' c s = Inr s' \<and> editor_inv s' \<and> Sprites s' = Sprites s \<and>
           SelectedSprite s' = Some (Sprites s ! ((i + 1) mod length (Sprites s)))"
proof -
  from i have ne: "Sprites s \<noteq> []" by auto
  from indexOf_nth [OF inv_distinct [OF inv] i]
  have "indexOf (Sprites s) (Sprites s ! i) = int i" .
  moreover have "nat ((int i + 1) mod int (length (Sprites s))) = (i + 1) mod length (Sprites s)"
  proof -
    have "int i + 1 = int (i + 1)" by simp
    then have "(int i + 1) mod int (length (Sprites s)) = int ((i + 1) mod length (Sprites s))"
      by (simp only: zmod_int)
    then show ?thesis by simp
  qed
  ultimately show ?thesis
    using Tab_step [OF inv ne, of c] sel by simp
qed

lemma Tabs_from_index:
  assumes "editor_inv s" "i < length (Sprites s)" "SelectedSprite s = Some (Sprites s ! i)"
  shows "\<exists>s'. run (replicate k (KeyDown ''Tab'' c)) s = Inr s' \<and> editor_inv s' \<and>
           Sprites s' = Sprites s \<and>
           SelectedSprite s' = Some (Sprites s ! ((i + k) mod length (Sprites s)))"
  using assms
proof (induction k arbitrary: s i)
  case 0
  then show ?case by simp
next
  case (Suc k)
  from Tab_from_index [OF Suc.prems, of c] obtain s1 where
    s1: "keydown ''Tab'' c s = Inr s1" "editor_inv s1" "Sprites s1 = Sprites s"
      "SelectedSprite s1 = Some (Sprites s ! ((i + 1) mod length (Sprites s)))" by blast
  from Suc.prems(2) have "0 < length (Sprites s)" by (cases "Sprites s") simp_all
  then have j: "(i + 1) mod length (Sprites s1) < length (Sprites s1)"
    by (simp add: s1(3))
  from Suc.IH [OF s1(2) j] s1 obtain s' where
    s': "run (replicate k (KeyDown ''Tab'' c)) s1 = Inr s'" "editor_inv s'"
      "Sprites s' = Sprites s"
      "SelectedSprite s' = Some (Sprites s ! (((i + 1) mod length (Sprites s) + k) mod length (Sprites s)))"
    by auto
  have "((i + 1) mod length (Sprites s) + k) mod length (Sprites s) = (i + Suc k) mod length (Sprites s)"
    by (simp add: mod_simps)
  with s1(1) s' show ?case by simp
qed

lemma Tabs_from_Idle:
  assumes "editor_inv s" "Sprites s \<noteq> []" "SelectedSprite s = None"
  shows "\<exists>s'. run (replicate (Suc k) (KeyDown ''Tab'' c)) s = Inr s' \<and> editor_inv s' \<and>
           Sprites s' = Sprites s \<and>
           SelectedSprite s' = Some (Sprites s ! (k mod length (Sprites s)))"
proof -
  from Tab_from_Idle [OF assms, of c] obtain s1 where
    s1: "keydown ''Tab'' c s = Inr s1" "editor_inv s1" "Sprites s1 = Sprites s"
      "SelectedSprite s1 = Some (Sprites s ! 0)" by blast
  from assms(2) have "0 < length (Sprites s1)" by (simp add: s1(3))
  from Tabs_from_index [OF s1(2) this, of k c] s1 show ?thesis by simp
qed

subsection \<open>Clicks\<close>

lemma click_suppressed:
  "button = 2 \<or> IsTransformActive s \<Longrightarrow> click rc button x y s = Some (Inr s)"
  by (simp add: click_def)

lemma Mouse_update: "Mouse (s\<lparr>Mouse := v\<rparr>) = v"
  by simp

lemma click_unfold:
  assumes "button \<noteq> 2" "\<not> IsTransformActive s"
  shows "click rc button x y s =
     (let s1 = s\<lparr>Mouse := ((x / WINDOW_WIDTH s) * 2 - 1, - (y / WINDOW_HEIGHT s) * 2 + 1)\<rparr>
      in case find_sprite s1 (rc s1) of
           None \<Rightarrow> None
         | Some None \<Rightarrow> Some (Inr (DeselectCurrentSprite s1))
         | Some (Some sp) \<Rightarrow> Some (SelectSprite sp s1))"
  unfolding click_def using assms by simp

lemma click_no_sprite:
  assumes "button \<noteq> 2" "\<not> IsTransformActive s"
    and "\<forall>h \<in> set (rc (s\<lparr>Mouse := ((x / WINDOW_WIDTH s) * 2 - 1, - (y / WINDOW_HEIGHT s) * 2 + 1)\<rparr>)).
           \<exists>p. top_level_parent (parent s) h = Some p \<and> \<not> isSprite s p"
  shows "click rc button x y s =
     Some (Inr (DeselectCurrentSprite
         (s\<lparr>Mouse := ((x / WINDOW_WIDTH s) * 2 - 1, - (y / WINDOW_HEIGHT s) * 2 + 1)\<rparr>)))"
proof -
  define s1 where "s1 = s\<lparr>Mouse := ((x / WINDOW_WIDTH s) * 2 - 1, - (y / WINDOW_HEIGHT s) * 2 + 1)\<rparr>"
  from assms(3) have "find_sprite s (rc s1) = Some None"
    unfolding s1_def by (rule find_sprite_no_sprite)
  then have f: "find_sprite s1 (rc s1) = Some None" by (simp add: s1_def)
  have "click rc button x y s = (case find_sprite s1 (rc s1) of
           None \<Rightarrow> None
         | Some None \<Rightarrow> Some (Inr (DeselectCurrentSprite s1))
         | Some (Some sp) \<Rightarrow> Some (SelectSprite sp s1))"
    unfolding s1_def by (simp only: click_unfold [OF assms(1,2)] Let_def)
  with f show ?thesis by (simp only: option.case s1_def)
qed

lemma click_Mouse:
  assumes "button \<noteq> 2" "\<not> IsTransformActive s" "click rc button x y s = Some (Inr s')"
  shows "Mouse s' = ((x / WINDOW_WIDTH s) * 2 - 1, - (y / WINDOW_HEIGHT s) * 2 + 1)"
proof -
  define s1 where "s1 = s\<lparr>Mouse := ((x / WINDOW_WIDTH s) * 2 - 1, - (y / WINDOW_HEIGHT s) * 2 + 1)\<rparr>"
  have m: "Mouse s1 = ((x / WINDOW_WIDTH s) * 2 - 1, - (y / WINDOW_HEIGHT s) * 2 + 1)"
    unfolding s1_def by (rule Mouse_update)
  have "click rc button x y s = (case find_sprite s1 (rc s1) of
           None \<Rightarrow> None
         | Some None \<Rightarrow> Some (Inr (DeselectCurrentSprite s1))
         | Some (Some sp) \<Rightarrow> Some (SelectSprite sp s1))"
    unfolding s1_def by (simp only: click_unfold [OF assms(1,2)] Let_def)
  with assms(3) have c: "(case find_sprite s1 (rc s1) of None \<Rightarrow> None
       | Some None \<Rightarrow> Some (Inr (DeselectCurrentSprite s1))
       | Some (Some sp) \<Rightarrow> Some (SelectSprite sp s1)) = Some (Inr s')"
    by simp
  show ?thesis
  proof (cases "find_sprite s1 (rc s1)")
    case None
    with c show ?thesis by simp
  next
    case (Some r)
    show ?thesis
    proof (cases r)
      case None
      with c Some have "s' = DeselectCurrentSprite s1" by simp
      then have "Mouse s' = Mouse s1" by (simp only: Deselect_frame)
      with m show ?thesis by (simp only:)
    next
      case (Some sp)
      with c \<open>find_sprite s1 (rc s1) = Some r\<close> have "SelectSprite sp s1 = Inr s'" by simp
      from SelectSprite_frame(4) [OF this] m show ?thesis by (simp only:)
    qed
  qed
qed

lemma click_rc_at_ndc:
  "click rc button x y s =
   click (\<lambda>_. rc (s\<lparr>Mouse := ((x / WINDOW_WIDTH s) * 2 - 1, - (y / WINDOW_HEIGHT s) * 2 + 1)\<rparr>))
     button x y s"
  by (simp add: click_def Let_def)

subsection \<open>After deleting; the gizmo mode\<close>

lemma Mouse_inv: "editor_inv s \<Longrightarrow> editor_inv (s\<lparr>Mouse := m\<rparr>)"
  by (erule editor_inv_cong) simp_all

lemma Delete_Selected_facts:
  assumes inv: "editor_inv s" and sel: "SelectedSprite s = Some a"
  shows "outlines (DeleteSelectedSprite s) a = []"
    "a \<notin> set (children (DeleteSelectedSprite s) Scene)"
    "a \<notin> set (Sprites (DeleteSelectedSprite s))"
    "parent (DeleteSelectedSprite s) a = None"
    "SelectedSprite (DeleteSelectedSprite s) = None"
    "TransformControls_object (DeleteSelectedSprite s) = None"
    "a < next_obj (DeleteSelectedSprite s)" "3 < a"
proof -
  from inv_selected [OF inv sel] obtain ol where
    a: "a \<in> set (Sprites s)" and ol: "selectionOutline s a = Some ol" "outlines s a = [ol]"
    "ol \<in> set (children s a)" by blast
  note eq = Delete_Selected [OF inv sel ol(1) ol(3)]
  from inv_sprite [OF inv a] have w: "3 < a" "a < next_obj s" by (simp_all add: sprite_wf_def)
  from inv_distinct [OF inv] have d: "a \<notin> set (remove1 a (Sprites s))" by simp
  from ol(2) have "filter (\<lambda>c. kind s c = LineSegments) (remove1 ol (children s a)) = []"
    unfolding outlines_def by (rule filter_single_remove1)
  with w show "outlines (DeleteSelectedSprite s) a = []"
    by (simp add: eq outlines_def)
  from w d show "a \<notin> set (children (DeleteSelectedSprite s) Scene)" by (simp add: eq)
  from d show "a \<notin> set (Sprites (DeleteSelectedSprite s))" by (simp add: eq)
  show "parent (DeleteSelectedSprite s) a = None" by (simp add: eq)
  show "SelectedSprite (DeleteSelectedSprite s) = None" by (simp add: eq)
  show "TransformControls_object (DeleteSelectedSprite s) = None" by (simp add: eq)
  from w show "a < next_obj (DeleteSelectedSprite s)" by (simp add: eq)
  from w show "3 < a" by simp
qed

lemma never_tracked_again:
  assumes inv: "editor_inv s" and a: "a \<notin> set (Sprites s)" "a < next_obj s" "3 < a"
  shows "\<exists>s'. run evs s = Inr s' \<and> editor_inv s' \<and> a \<notin> set (Sprites s') \<and>
           a \<notin> set (children s' Scene) \<and> SelectedSprite s' \<noteq> Some a \<and>
           TransformControls_object s' \<noteq> Some a"
proof -
  from run_step [OF inv, of evs] obtain s' where
    s': "run evs s = Inr s'" "editor_inv s'" "step_ok s s'" by blast
  from s'(3) a have n: "a \<notin> set (Sprites s')" by (auto simp: step_ok_def)
  from s'(2) have "set_option (SelectedSprite s') \<subseteq> set (Sprites s')"
    unfolding editor_inv_def by blast
  with n have sel: "SelectedSprite s' \<noteq> Some a" by auto
  with inv_gizmo [OF s'(2)] have "TransformControls_object s' \<noteq> Some a" by simp
  moreover from n a(3) have "a \<notin> set (children s' Scene)"
    by (simp add: inv_scene_children [OF s'(2)])
  ultimately show ?thesis using s' n sel by blast
qed

lemma Space_one_listener:
  "TransformControls_object s \<noteq> None \<Longrightarrow>
   CurrentModeIndex (keydown_first ''Space'' s) = (CurrentModeIndex s + 1) mod 3 \<and>
   TransformControls_mode (keydown_first ''Space'' s) =
     TransformModes ! ((CurrentModeIndex s + 1) mod 3) \<and>
   keydown_second ''Space'' c s = Inr (keydown_first ''Space'' s)"
  by (simp add: keydown_first_def keydown_second_def setMode_def Let_def TransformModes_def)

lemma Space_without_selection:
  "TransformControls_object s = None \<Longrightarrow> keydown ''Space'' c s = Inr s"
  by (simp add: keydown_Space)

lemma mode_remembered:
  assumes "editor_inv s" "b \<in> set (Sprites s)"
  shows "CurrentModeIndex (DeselectCurrentSprite s) = CurrentModeIndex s \<and>
         (\<exists>s'. SelectSprite b s = Inr s' \<and> CurrentModeIndex s' = CurrentModeIndex s \<and>
                TransformControls_mode s' = TransformModes ! CurrentModeIndex s)"
  using SelectSprite_inv [OF assms] by (auto simp: Deselect_facts)

subsection \<open>Clicks keep the invariant\<close>

lemma find_sprite_Some:
  "find_sprite s hs = Some (Some p) \<Longrightarrow>
   \<exists>h \<in> set hs. top_level_parent (parent s) h = Some p \<and> isSprite s p"
  by (induction hs) (auto split: option.splits if_splits)

lemma click_inv:
  assumes inv: "editor_inv s"
    and ret: "click rc button x y s = Some r"
    and tracked: "\<forall>h \<in> set (rc (s\<lparr>Mouse := ((x / WINDOW_WIDTH s) * 2 - 1,
                                          - (y / WINDOW_HEIGHT s) * 2 + 1)\<rparr>)).
        \<forall>p. top_level_parent (parent s) h = Some p \<longrightarrow> isSprite s p \<longrightarrow> p \<in> set (Sprites s)"
  shows "\<exists>s'. r = Inr s' \<and> editor_inv s'"
proof (cases "button = 2 \<or> IsTransformActive s")
  case True
  with ret inv show ?thesis by (auto simp: click_suppressed)
next
  case False
  then have g: "button \<noteq> 2" "\<not> IsTransformActive s" by simp_all
  define s1 where "s1 = s\<lparr>Mouse := ((x / WINDOW_WIDTH s) * 2 - 1, - (y / WINDOW_HEIGHT s) * 2 + 1)\<rparr>"
  have i1: "editor_inv s1" unfolding s1_def using inv by (rule Mouse_inv)
  have "click rc button x y s = (case find_sprite s1 (rc s1) of
           None \<Rightarrow> None
         | Some None \<Rightarrow> Some (Inr (DeselectCurrentSprite s1))
         | Some (Some sp) \<Rightarrow> Some (SelectSprite sp s1))"
    unfolding s1_def by (simp only: click_unfold [OF g] Let_def)
  with ret have c: "(case find_sprite s1 (rc s1) of None \<Rightarrow> None
       | Some None \<Rightarrow> Some (Inr (DeselectCurrentSprite s1))
       | Some (Some sp) \<Rightarrow> Some (SelectSprite sp s1)) = Some r"
    by simp
  show ?thesis
  proof (cases "find_sprite s1 (rc s1)")
    case None
    with c show ?thesis by simp
  next
    case (Some f)
    show ?thesis
    proof (cases f)
      case None
      with c Some have "r = Inr (DeselectCurrentSprite s1)" by simp
      with Deselect_inv [OF i1] show ?thesis by simp
    next
      case (Some sp)
      with \<open>find_sprite s1 (rc s1) = Some f\<close> have "find_sprite s (rc s1) = Some (Some sp)"
        by (simp add: s1_def)
      from find_sprite_Some [OF this] tracked have "sp \<in> set (Sprites s)"
        unfolding s1_def by blast
      then have "sp \<in> set (Sprites s1)" by (simp add: s1_def)
      from SelectSprite_inv [OF i1 this] obtain s' where
        "SelectSprite sp s1 = Inr s'" "editor_inv s'" by blast
      moreover from c Some \<open>find_sprite s1 (rc s1) = Some f\<close> have "r = SelectSprite sp s1"
        by simp
      ultimately show ?thesis by simp
    qed
  qed
qed

subsection \<open>Sessions with clicks\<close>

lemma find_sprite_returns:
  assumes "\<forall>h \<in> set hs. \<exists>p. top_level_parent (parent s) h = Some p"
  shows "\<exists>f. find_sprite s hs = Some f"
  using assms by (induction hs) auto

lemma Deselect_step_ok: "step_ok s (DeselectCurrentSprite s)"
  by (simp add: step_ok_def Deselect_frame Deselect_facts)

lemma SelectSprite_step_ok:
  assumes "SelectSprite a s = Inr s'"
  shows "step_ok s s'"
  using SelectSprite_frame [OF assms] by (auto simp: step_ok_def)

lemma click_step:
  assumes inv: "editor_inv s" and rc: "under_scene rc"
  shows "\<exists>s'. click rc button x y s = Some (Inr s') \<and> editor_inv s' \<and> step_ok s s'"
proof (cases "button = 2 \<or> IsTransformActive s")
  case True
  with inv show ?thesis by (simp add: click_suppressed step_ok_refl)
next
  case False
  then have g: "button \<noteq> 2" "\<not> IsTransformActive s" by simp_all
  define s1 where "s1 = s\<lparr>Mouse := ((x / WINDOW_WIDTH s) * 2 - 1, - (y / WINDOW_HEIGHT s) * 2 + 1)\<rparr>"
  have i1: "editor_inv s1" unfolding s1_def using inv by (rule Mouse_inv)
  have st1: "step_ok s s1" unfolding s1_def by (simp add: step_ok_def)
  from rc have hits: "\<forall>h \<in> set (rc s1).
      \<exists>p \<in> set (children s1 Scene). top_level_parent (parent s1) h = Some p"
    unfolding under_scene_def by blast
  have c: "click rc button x y s = (case find_sprite s1 (rc s1) of
           None \<Rightarrow> None
         | Some None \<Rightarrow> Some (Inr (DeselectCurrentSprite s1))
         | Some (Some sp) \<Rightarrow> Some (SelectSprite sp s1))"
    unfolding s1_def by (simp only: click_unfold [OF g] Let_def)
  from hits have "\<forall>h \<in> set (rc s1). \<exists>p. top_level_parent (parent s1) h = Some p" by blast
  from find_sprite_returns [OF this] obtain f where f: "find_sprite s1 (rc s1) = Some f" ..
  show ?thesis
  proof (cases f)
    case None
    with c f have "click rc button x y s = Some (Inr (DeselectCurrentSprite s1))" by simp
    moreover from i1 have "editor_inv (DeselectCurrentSprite s1)" by (rule Deselect_inv)
    moreover from st1 Deselect_step_ok have "step_ok s (DeselectCurrentSprite s1)"
      by (rule step_ok_trans)
    ultimately show ?thesis by blast
  next
    case (Some sp)
    with f have "find_sprite s1 (rc s1) = Some (Some sp)" by simp
    from find_sprite_Some [OF this] obtain h where
      h: "h \<in> set (rc s1)" "top_level_parent (parent s1) h = Some sp" "isSprite s1 sp" by blast
    from hits h(1,2) have "sp \<in> set (children s1 Scene)" by auto
    then have "sp \<in> {GridHelper, AxesHelper, TransformControls} \<union> set (Sprites s1)"
      by (simp add: inv_scene_children [OF i1])
    moreover from i1 have "\<not> isSprite s1 GridHelper" "\<not> isSprite s1 AxesHelper"
      "\<not> isSprite s1 TransformControls" unfolding editor_inv_def by blast+
    ultimately have "sp \<in> set (Sprites s1)" using h(3) by auto
    from SelectSprite_inv [OF i1 this] obtain s' where
      s': "SelectSprite sp s1 = Inr s'" "editor_inv s'" by blast
    from c f Some s'(1) have "click rc button x y s = Some (Inr s')" by simp
    moreover from st1 SelectSprite_step_ok [OF s'(1)] have "step_ok s s'" by (rule step_ok_trans)
    ultimately show ?thesis using s'(2) by blast
  qed
qed

lemma handle_step:
  assumes "editor_inv s" "scene_input i"
  shows "\<exists>s'. handle i s = Some (Inr s') \<and> editor_inv s' \<and> step_ok s s'"
proof (cases i)
  case (Event e)
  with dispatch_step [OF assms(1), of e] show ?thesis by simp
next
  case (Click rc b x y)
  with assms(2) have "under_scene rc" by simp
  from click_step [OF assms(1) this, of b x y] Click show ?thesis by simp
qed

lemma session_step:
  assumes "editor_inv s" "\<forall>i \<in> set ins. scene_input i"
  shows "\<exists>s'. session ins s = Some (Inr s') \<and> editor_inv s' \<and> step_ok s s'"
  using assms
proof (induction ins arbitrary: s)
  case Nil
  then show ?case by (simp add: step_ok_refl)
next
  case (Cons i ins)
  from Cons.prems(2) have i: "scene_input i" and r: "\<forall>i \<in> set ins. scene_input i" by simp_all
  from handle_step [OF Cons.prems(1) i] obtain s1 where
    s1: "handle i s = Some (Inr s1)" "editor_inv s1" "step_ok s s1" by blast
  from Cons.IH [OF s1(2) r] obtain s' where
    s': "session ins s1 = Some (Inr s')" "editor_inv s'" "step_ok s1 s'" by blast
  from s1 s' step_ok_trans [OF s1(3) s'(3)] show ?case by simp
qed

lemma session_Events: "session (map Event evs) s = Some (run evs s)"
  by (induction evs arbitrary: s) (simp_all split: sum.splits)

lemma never_picked_again:
  assumes inv: "editor_inv s" and a: "a \<notin> set (Sprites s)" "a < next_obj s" "3 < a"
    and ins: "\<forall>i \<in> set ins. scene_input i"
  shows "\<exists>s'. session ins s = Some (Inr s') \<and> editor_inv s' \<and> a \<notin> set (Sprites s') \<and>
           a \<notin> set (children s' Scene) \<and> SelectedSprite s' \<noteq> Some a \<and>
           TransformControls_object s' \<noteq> Some a"
proof -
  from session_step [OF inv ins] obtain s' where
    s': "session ins s = Some (Inr s')" "editor_inv s'" "step_ok s s'" by blast
  from s'(3) a have n: "a \<notin> set (Sprites s')" by (auto simp: step_ok_def)
  from s'(2) have "set_option (SelectedSprite s') \<subseteq> set (Sprites s')"
    unfolding editor_inv_def by blast
  with n have sel: "SelectedSprite s' \<noteq> Some a" by auto
  with inv_gizmo [OF s'(2)] have "TransformControls_object s' \<noteq> Some a" by simp
  moreover from n a(3) have "a \<notin> set (children s' Scene)"
    by (simp add: inv_scene_children [OF s'(2)])
  ultimately show ?thesis using s' n sel by blast
qed

lemma under_scene_ray_through: "under_scene (ray_through hs)"
  by (auto simp: under_scene_def ray_through_def split: option.splits)

subsection \<open>Clicks after a deletion\<close>

lemma deleted_two_sprites:
  "DeleteSelectedSprite two_sprites =
     two_sprites\<lparr>parent := (parent two_sprites)(11 := None, 8 := None),
       children := (children two_sprites)(8 := [9, 10],
                      Scene := [GridHelper, AxesHelper, TransformControls, 4]),
       Sprites := [4], TransformControls_object := None, SelectedSprite := None\<rparr>"
proof -
  have ol: "selectionOutline two_sprites 8 = Some 11" "11 \<in> set (children two_sprites 8)"
    by (simp_all add: two_sprites_def)
  have c: "children two_sprites 8 = [9, 10, 11]" by (simp add: two_sprites_def)
  from Delete_Selected [OF two_sprites_inv two_sprites_facts(2) ol]
  show ?thesis by (simp add: two_sprites_facts c)
qed

lemma deleted_two_sprites_facts:
  "parent (DeleteSelectedSprite two_sprites) 9 = Some 8"
  "parent (DeleteSelectedSprite two_sprites) 8 = None"
  "parent (DeleteSelectedSprite two_sprites) 5 = Some 4"
  "parent (DeleteSelectedSprite two_sprites) 4 = Some Scene"
  "children (DeleteSelectedSprite two_sprites) Scene = [GridHelper, AxesHelper, TransformControls, 4]"
  "isSprite (DeleteSelectedSprite two_sprites) 4" "isSprite (DeleteSelectedSprite two_sprites) 8"
  "visiblePlane (DeleteSelectedSprite two_sprites) 8 = Some 9"
  "Sprites (DeleteSelectedSprite two_sprites) = [4]"
  "SelectedSprite (DeleteSelectedSprite two_sprites) = None"
  "\<not> IsTransformActive (DeleteSelectedSprite two_sprites)"
  "next_obj (DeleteSelectedSprite two_sprites) = 12"
  unfolding deleted_two_sprites by (simp_all add: two_sprites_def startup_def UpdateCameraPosition_def)

lemma top_level_parent_deleted:
  "top_level_parent (parent (DeleteSelectedSprite two_sprites)) 9 = Some 8"
  "top_level_parent (parent (DeleteSelectedSprite two_sprites)) 5 = Some 4"
proof -
  show "top_level_parent (parent (DeleteSelectedSprite two_sprites)) 9 = Some 8"
    by (subst top_level_parent.simps, simp add: deleted_two_sprites_facts,
        subst top_level_parent.simps, simp add: deleted_two_sprites_facts)
  show "top_level_parent (parent (DeleteSelectedSprite two_sprites)) 5 = Some 4"
    by (subst top_level_parent.simps, simp add: deleted_two_sprites_facts,
        subst top_level_parent.simps, simp add: deleted_two_sprites_facts)
qed

text \<open>
  After the sprite group 8 was deleted, a ray through its plane 9 and then through the
  plane 5 of the group 4 hits 5 only, and the click selects the group 4.
\<close>

lemma click_after_delete:
  "\<exists>s'. click (ray_through [9, 5]) 0 400 300 (DeleteSelectedSprite two_sprites) = Some (Inr s') \<and>
        SelectedSprite s' = Some 4"
proof -
  define d where "d = DeleteSelectedSprite two_sprites"
  define s1 where "s1 = d\<lparr>Mouse := ((400 / WINDOW_WIDTH d) * 2 - 1, - (300 / WINDOW_HEIGHT d) * 2 + 1)\<rparr>"
  have inv: "editor_inv d" unfolding d_def using two_sprites_inv by (rule Delete_inv)
  then have i1: "editor_inv s1" unfolding s1_def by (rule Mouse_inv)
  have g: "(0::int) \<noteq> 2" "\<not> IsTransformActive d"
    by (simp_all add: d_def deleted_two_sprites_facts)
  have p: "parent s1 = parent d" "children s1 = children d" "isSprite s1 = isSprite d"
    "Sprites s1 = Sprites d"
    by (simp_all add: s1_def)
  have ray: "ray_through [9, 5] s1 = [5]"
    unfolding ray_through_def p
    by (simp add: d_def top_level_parent_deleted deleted_two_sprites_facts)
  have "find_sprite s1 [5] = Some (Some 4)"
    by (simp add: p d_def top_level_parent_deleted deleted_two_sprites_facts)
  with ray have f: "find_sprite s1 (ray_through [9, 5] s1) = Some (Some 4)" by simp
  have c: "click (ray_through [9, 5]) 0 400 300 d = Some (SelectSprite 4 s1)"
    by (simp only: click_unfold [OF g] Let_def s1_def [symmetric] f option.case)
  have "4 \<in> set (Sprites s1)" by (simp add: p d_def deleted_two_sprites_facts)
  from SelectSprite_inv [OF i1 this] obtain s' where
    "SelectSprite 4 s1 = Inr s'" "SelectedSprite s' = Some 4" by blast
  with c show ?thesis unfolding d_def by simp
qed

text \<open>
  The click listener itself does not ask whether the group it finds is still tracked: it
  relies on the ray caster returning objects of the scene only. Were the plane 9 of the
  deleted group 8 returned, the listener would select that group again.
\<close>

lemma click_relies_on_ray_caster:
  "\<not> under_scene (\<lambda>_. [9]) \<and>
   (\<exists>s'. click (\<lambda>_. [9]) 0 400 300 (DeleteSelectedSprite two_sprites) = Some (Inr s') \<and>
         SelectedSprite s' = Some 8)"
proof -
  define d where "d = DeleteSelectedSprite two_sprites"
  define s1 where "s1 = d\<lparr>Mouse := ((400 / WINDOW_WIDTH d) * 2 - 1, - (300 / WINDOW_HEIGHT d) * 2 + 1)\<rparr>"
  have g: "(0::int) \<noteq> 2" "\<not> IsTransformActive d"
    by (simp_all add: d_def deleted_two_sprites_facts)
  have p: "parent s1 = parent d" "children s1 = children d" "isSprite s1 = isSprite d"
    "SelectedSprite s1 = SelectedSprite d" "visiblePlane s1 = visiblePlane d"
    "next_obj s1 = next_obj d"
    by (simp_all add: s1_def)
  have "\<not> (\<forall>h \<in> set ((\<lambda>_. [9]) d).
      \<exists>p \<in> set (children d Scene). top_level_parent (parent d) h = Some p)"
    by (simp add: d_def top_level_parent_deleted deleted_two_sprites_facts)
  then have n: "\<not> under_scene (\<lambda>_. [9])" unfolding under_scene_def by blast
  have f: "find_sprite s1 ((\<lambda>_. [9]) s1) = Some (Some 8)"
    by (simp add: p d_def top_level_parent_deleted deleted_two_sprites_facts)
  have c: "click (\<lambda>_. [9]) 0 400 300 d = Some (SelectSprite 8 s1)"
    by (simp only: click_unfold [OF g] Let_def s1_def [symmetric] f option.case)
  have "SelectedSprite s1 = None" "visiblePlane s1 8 = Some 9" "8 \<noteq> next_obj s1"
    by (simp_all add: p d_def deleted_two_sprites_facts)
  from SelectSprite_Idle [OF this] obtain s' where
    "SelectSprite 8 s1 = Inr s'" "SelectedSprite s' = Some 8" by simp
  with c n show ?thesis unfolding d_def by simp
qed

section \<open>The orbit camera\<close>

lemma PhiClamped_bounds: "0.01 \<le> PhiClamped s \<and> PhiClamped s \<le> pi - 0.01"
proof -
  have "(2::real) \<le> pi" by (rule pi_ge_two)
  then have "(0.01::real) \<le> pi - 0.01" by simp
  then show ?thesis unfolding PhiClamped_def by (simp add: max_def min_def)
qed

lemma startup_Radius: "Radius (startup w h) = Num 10" "\<not> IsTransformActive (startup w h)"
  by (simp_all add: startup_def UpdateCameraPosition_def)

lemma wheel_at_10:
  assumes "\<not> IsTransformActive s" "Radius s = Num 10"
  shows "Radius (wheel deltaY s) = Num (if deltaY > 0 then 10 + 0.45 else 10 - 0.45)"
  using assms by (simp add: Radius_wheel ZOOMINTENSITY_def js_sub_def overflow_small)

lemma wheel_at_floor:
  assumes "\<not> IsTransformActive s" "Radius s = Num 1.1"
  shows "Radius (wheel deltaY s) = Num (if deltaY > 0 then 1.1 + 0.05 else 1.1)"
  using assms by (simp add: Radius_wheel ZOOMINTENSITY_def js_sub_def overflow_small)

lemma js_mul_bounded:
  assumes "\<bar>r\<bar> \<le> MAX_VALUE" "\<bar>c\<bar> \<le> 1"
  shows "js_mul (Num r) (Num c) = Num (r * c)" "\<bar>r * c\<bar> \<le> MAX_VALUE"
proof -
  have "\<bar>r * c\<bar> = \<bar>r\<bar> * \<bar>c\<bar>" by (rule abs_mult)
  also have "\<dots> \<le> \<bar>r\<bar> * 1" using assms(2) by (intro mult_left_mono) simp_all
  finally show b: "\<bar>r * c\<bar> \<le> MAX_VALUE" using assms(1) by simp
  then show "js_mul (Num r) (Num c) = Num (r * c)" by (simp add: overflow_Num)
qed

lemma Camera_position_finite:
  assumes "Radius s = Num r" "\<bar>r\<bar> \<le> MAX_VALUE"
  shows "Camera_position (UpdateCameraPosition s) =
     (Num (r * sin (PhiClamped s) * sin (Theta s)),
      Num (r * cos (PhiClamped s)),
      Num (r * sin (PhiClamped s) * cos (Theta s)))"
proof -
  note a = js_mul_bounded [OF assms(2), of "sin (PhiClamped s)", OF abs_sin_le_one]
  note b = js_mul_bounded [OF a(2), of "sin (Theta s)", OF abs_sin_le_one]
  note c = js_mul_bounded [OF assms(2), of "cos (PhiClamped s)", OF abs_cos_le_one]
  note d = js_mul_bounded [OF a(2), of "cos (Theta s)", OF abs_cos_le_one]
  show ?thesis
    by (simp add: UpdateCameraPosition_def assms(1) a(1) b(1) c(1) d(1) del: js_mul.simps)
qed

text \<open>
  Claim C1, as amended. \<^verbatim>\<open>WheelEvent.deltaY\<close> is positive when the wheel scrolls down.
  While no gizmo drag is in progress, one wheel event at radius 10 moves the radius by
  \<open>0.5 * max 0.1 ((10 - 1) / 10) = 0.45\<close>: up to 10.45 when scrolling down, down to 9.55
  otherwise. At radius 1.1 the step is \<open>0.5 * max 0.1 ((1.1 - 1) / 10) = 0.05\<close>: scrolling
  down gives 1.15, scrolling up gives 1.05, which the clamp puts back to 1.1.
\<close>

theorem wheel_scenario:
  assumes "\<not> IsTransformActive s"
  shows "ZOOMINTENSITY * max 0.1 ((10 - 1) / 10) = 0.45 \<and>
         ZOOMINTENSITY * max 0.1 ((1.1 - 1) / 10) = 0.05 \<and>
         (Radius s = Num 10 \<longrightarrow>
            Radius (wheel deltaY s) = Num (if deltaY > 0 then 10 + 0.45 else 10 - 0.45)) \<and>
         (Radius s = Num 1.1 \<longrightarrow>
            Radius (wheel deltaY s) = Num (if deltaY > 0 then 1.1 + 0.05 else 1.1))"
proof (intro conjI impI)
  show "ZOOMINTENSITY * max 0.1 ((10 - 1) / 10) = 0.45" by (simp add: ZOOMINTENSITY_def)
  show "ZOOMINTENSITY * max 0.1 ((1.1 - 1) / 10) = 0.05" by (simp add: ZOOMINTENSITY_def)
  show "Radius (wheel deltaY s) = Num (if deltaY > 0 then 10 + 0.45 else 10 - 0.45)"
    if "Radius s = Num 10" using assms that by (rule wheel_at_10)
  show "Radius (wheel deltaY s) = Num (if deltaY > 0 then 1.1 + 0.05 else 1.1)"
    if "Radius s = Num 1.1" using assms that by (rule wheel_at_floor)
qed

theorem wheel_scenario_witness:
  "\<not> IsTransformActive (startup 800 600) \<and> Radius (startup 800 600) = Num 10 \<and>
   Radius (wheel (- 100) (startup 800 600)) = Num 9.55 \<and>
   Radius (wheel 100 ((startup 800 600)\<lparr>Radius := Num 1.1\<rparr>)) = Num 1.15"
  using wheel_scenario [of "startup 800 600" "- 100"]
    wheel_scenario [of "(startup 800 600)\<lparr>Radius := Num 1.1\<rparr>" 100]
  by (simp add: startup_Radius)

text \<open>
  The claim as it was stated fails: scrolling down once at radius 10 does not take 0.45
  off the radius (it adds 0.45), and scrolling up once at radius 1.1 does not add 0.05
  (the radius stays 1.1).
\<close>

theorem wheel_direction_counterexample:
  "Radius (wheel 100 (startup 800 600)) = Num 10.45 \<and>
   \<not> (Radius (wheel 100 (startup 800 600)) = js_sub (Radius (startup 800 600)) (Num 0.45)) \<and>
   Radius (wheel (- 100) ((startup 800 600)\<lparr>Radius := Num 1.1\<rparr>)) = Num 1.1 \<and>
   \<not> (Radius (wheel (- 100) ((startup 800 600)\<lparr>Radius := Num 1.1\<rparr>)) = Num (1.1 + 0.05))"
  by (simp add: wheel_at_10 wheel_at_floor startup_Radius js_sub_def overflow_small)

text \<open>
  Claim C3. \<^const>\<open>UpdateCameraPosition\<close> writes the position computed from the radius,
  the azimuth and the clamped polar angle, and nothing but those three enters it; it
  aims the camera at the origin; it leaves the three orbit values alone; and a second
  call changes nothing. The products are JavaScript's; for a radius that is a number
  they are the products of real numbers.
\<close>

theorem UpdateCameraPosition_pure:
  "Camera_position (UpdateCameraPosition s) =
     (js_mul (js_mul (Radius s) (Num (sin (max 0.01 (min (pi - 0.01) (Phi s))))))
        (Num (sin (Theta s))),
      js_mul (Radius s) (Num (cos (max 0.01 (min (pi - 0.01) (Phi s))))),
      js_mul (js_mul (Radius s) (Num (sin (max 0.01 (min (pi - 0.01) (Phi s))))))
        (Num (cos (Theta s)))) \<and>
   (Radius s = Num r \<and> \<bar>r\<bar> \<le> MAX_VALUE \<longrightarrow>
      Camera_position (UpdateCameraPosition s) =
        (Num (r * sin (max 0.01 (min (pi - 0.01) (Phi s))) * sin (Theta s)),
         Num (r * cos (max 0.01 (min (pi - 0.01) (Phi s)))),
         Num (r * sin (max 0.01 (min (pi - 0.01) (Phi s))) * cos (Theta s)))) \<and>
   Camera_lookAt (UpdateCameraPosition s) = (0, 0, 0) \<and>
   Radius (UpdateCameraPosition s) = Radius s \<and>
   Theta (UpdateCameraPosition s) = Theta s \<and>
   Phi (UpdateCameraPosition s) = Phi s \<and>
   UpdateCameraPosition (UpdateCameraPosition s) = UpdateCameraPosition s \<and>
   (Radius t = Radius s \<and> Theta t = Theta s \<and> Phi t = Phi s \<longrightarrow>
      Camera_position (UpdateCameraPosition t) = Camera_position (UpdateCameraPosition s))"
proof -
  have "Radius s = Num r \<and> \<bar>r\<bar> \<le> MAX_VALUE \<longrightarrow>
      Camera_position (UpdateCameraPosition s) =
        (Num (r * sin (max 0.01 (min (pi - 0.01) (Phi s))) * sin (Theta s)),
         Num (r * cos (max 0.01 (min (pi - 0.01) (Phi s)))),
         Num (r * sin (max 0.01 (min (pi - 0.01) (Phi s))) * cos (Theta s)))"
    using Camera_position_finite [of s r] unfolding PhiClamped_def by blast
  then show ?thesis by (simp add: UpdateCameraPosition_def PhiClamped_def)
qed

theorem UpdateCameraPosition_pure_witness:
  "Radius (mouseup (startup 800 600)) = Radius (startup 800 600) \<and>
   Theta (mouseup (startup 800 600)) = Theta (startup 800 600) \<and>
   Phi (mouseup (startup 800 600)) = Phi (startup 800 600) \<and>
   Camera_position (UpdateCameraPosition (mouseup (startup 800 600))) =
     Camera_position (UpdateCameraPosition (startup 800 600)) \<and>
   Radius (startup 800 600) = Num 10 \<and> \<bar>10\<bar> \<le> MAX_VALUE \<and>
   Camera_position (UpdateCameraPosition (startup 800 600)) =
     (Num (10 * sin (pi / 4) * sin (pi / 4)), Num (10 * cos (pi / 4)),
      Num (10 * sin (pi / 4) * cos (pi / 4))) \<and>
   Camera_lookAt (UpdateCameraPosition (startup 800 600)) = (0, 0, 0)"
proof -
  have m: "\<bar>10::real\<bar> \<le> MAX_VALUE" using MAX_VALUE_ge by simp
  have f: "Radius (startup 800 600) = Num 10" "Theta (startup 800 600) = pi / 4"
    "Phi (startup 800 600) = pi / 4"
    by (simp_all add: startup_def UpdateCameraPosition_def)
  have g: "Radius (mouseup (startup 800 600)) = Radius (startup 800 600)"
    "Theta (mouseup (startup 800 600)) = Theta (startup 800 600)"
    "Phi (mouseup (startup 800 600)) = Phi (startup 800 600)"
    by (simp_all add: mouseup_def)
  note T = UpdateCameraPosition_pure [of "startup 800 600" 10 "mouseup (startup 800 600)"]
  have pos: "Camera_position (UpdateCameraPosition (startup 800 600)) =
     (Num (10 * sin (pi / 4) * sin (pi / 4)), Num (10 * cos (pi / 4)),
      Num (10 * sin (pi / 4) * cos (pi / 4)))"
    using T [THEN conjunct2, THEN conjunct1] f m pi_ge_two
    by (simp add: max_def min_def del: js_mul.simps)
  from T g have same: "Camera_position (UpdateCameraPosition (mouseup (startup 800 600))) =
     Camera_position (UpdateCameraPosition (startup 800 600))"
    by (elim conjE) simp
  from T have look: "Camera_lookAt (UpdateCameraPosition (startup 800 600)) = (0, 0, 0)"
    by (elim conjE)
  from g f(1) m pos same look show ?thesis by (intro conjI)
qed

text \<open>
  Claim C4. Whatever the polar angle \<^const>\<open>Phi\<close> is, the clamped value that enters the
  position lies between \<open>\<epsilon> = 0.01\<close> and \<open>\<pi> - \<epsilon>\<close>.
\<close>

theorem PhiClamped_in_range:
  "(0::real) < 0.01 \<and>
   0.01 \<le> PhiClamped (s\<lparr>Phi := p\<rparr>) \<and> PhiClamped (s\<lparr>Phi := p\<rparr>) \<le> pi - 0.01 \<and>
   Camera_position (UpdateCameraPosition (s\<lparr>Phi := p\<rparr>)) =
     (js_mul (js_mul (Radius s) (Num (sin (PhiClamped (s\<lparr>Phi := p\<rparr>))))) (Num (sin (Theta s))),
      js_mul (Radius s) (Num (cos (PhiClamped (s\<lparr>Phi := p\<rparr>)))),
      js_mul (js_mul (Radius s) (Num (sin (PhiClamped (s\<lparr>Phi := p\<rparr>))))) (Num (cos (Theta s))))"
  using PhiClamped_bounds [of "s\<lparr>Phi := p\<rparr>"] by (simp add: UpdateCameraPosition_def)

text \<open>
  Claim C5. The wheel listener ends with \<^verbatim>\<open>Radius = Math.max(1.1, Radius)\<close>, and after
  any events since startup the radius is a number not below 1.1, \<^verbatim>\<open>Infinity\<close> or
  \<^verbatim>\<open>NaN\<close>. It does not stay a number: each scroll-down multiplies \<open>Radius - 1\<close> by 1.05,
  so after 15360 of them from the startup radius 10 the radius is \<^verbatim>\<open>Infinity\<close>; one
  scroll-up then computes \<^verbatim>\<open>Infinity - Infinity\<close>, which is \<^verbatim>\<open>NaN\<close>, and
  \<^verbatim>\<open>Math.max(1.1, NaN)\<close> is \<^verbatim>\<open>NaN\<close>: the radius is no longer 1.1 or more, and the camera
  position is \<^verbatim>\<open>NaN\<close> in every coordinate.
\<close>

theorem Radius_floor_lost:
  "(\<exists>s'. run evs (startup innerWidth innerHeight) = Inr s' \<and>
         (Radius s' = NaN \<or> Radius s' = PosInf \<or> (\<exists>x. Radius s' = Num x \<and> 1.1 \<le> x))) \<and>
   (\<exists>s'. run (replicate 15360 (Wheel 100)) (startup 800 600) = Inr s' \<and>
         Radius s' = PosInf) \<and>
   (\<exists>s'. run (replicate 15360 (Wheel 100) @ [Wheel (- 100)]) (startup 800 600) = Inr s' \<and>
         Radius s' = NaN \<and> (\<nexists>x. Radius s' = Num x \<and> 1.1 \<le> x) \<and>
         Camera_position s' = (NaN, NaN, NaN))"
proof -
  define t where "t = (wheel 100 ^^ 15360) (startup 800 600)"
  have d: "(0::real) < 100" by simp
  from Radius_zoom_out [OF d, of 15360 800 600]
  have t: "Radius t = overflow (1 + 9 * (21 / 20) ^ 15360)" "\<not> IsTransformActive t"
    unfolding t_def by blast+
  from t(1) zoom_out_overflows have inf: "Radius t = PosInf"
    by (simp only: overflow_def if_True)
  have r1: "run (replicate 15360 (Wheel 100)) (startup 800 600) = Inr t"
    unfolding t_def by (rule run_Wheels)
  have u: "\<not> (0::real) < - 100" by simp
  from wheel_up_PosInf [OF t(2) inf u] have nan: "Radius (wheel (- 100) t) = NaN" .
  from Camera_position_NaN [OF t(2) nan]
  have cam: "Camera_position (wheel (- 100) t) = (NaN, NaN, NaN)" .
  have r2: "run (replicate 15360 (Wheel 100) @ [Wheel (- 100)]) (startup 800 600) =
      Inr (wheel (- 100) t)"
    by (simp only: run_append r1 sum.case run.simps dispatch.simps)
  have 1: "\<exists>s'. run (replicate 15360 (Wheel 100)) (startup 800 600) = Inr s' \<and>
         Radius s' = PosInf"
    using r1 inf by (intro exI conjI)
  have 2: "\<exists>s'. run (replicate 15360 (Wheel 100) @ [Wheel (- 100)]) (startup 800 600) = Inr s' \<and>
         Radius s' = NaN \<and> (\<nexists>x. Radius s' = Num x \<and> 1.1 \<le> x) \<and>
         Camera_position s' = (NaN, NaN, NaN)"
  proof (intro exI conjI)
    show "run (replicate 15360 (Wheel 100) @ [Wheel (- 100)]) (startup 800 600) =
      Inr (wheel (- 100) t)" by (rule r2)
    show "Radius (wheel (- 100) t) = NaN" by (rule nan)
    show "\<nexists>x. Radius (wheel (- 100) t) = Num x \<and> 1.1 \<le> x" by (simp add: nan)
    show "Camera_position (wheel (- 100) t) = (NaN, NaN, NaN)" by (rule cam)
  qed
  from run_Radius_clamped [of evs innerWidth innerHeight] 1 2 show ?thesis
    by (intro conjI)
qed

section \<open>The selection manager\<close>

text \<open>
  Claim C2 holds for each of the two \<^verbatim>\<open>keydown\<close> listeners taken alone
  (\<open>Space_one_listener\<close>), the mode index survives deselecting and is applied again by
  \<^const>\<open>SelectSprite\<close> (\<open>mode_remembered\<close>), and Space without a selection changes
  nothing (\<open>Space_without_selection\<close>). But both listeners are registered, so one
  press of Space runs the step twice: with a sprite selected and the gizmo in
  \<open>translate\<close> (index 0), the press ends in \<open>scale\<close> (index 2), not in \<open>rotate\<close>.
\<close>

theorem Space_advances_two_modes:
  "SelectedSprite two_sprites = Some 8 \<and>
   CurrentModeIndex two_sprites = 0 \<and> TransformControls_mode two_sprites = ''translate'' \<and>
   \<not> isl (keydown ''Space'' False two_sprites) \<and>
   CurrentModeIndex (projr (keydown ''Space'' False two_sprites)) = 2 \<and>
   TransformControls_mode (projr (keydown ''Space'' False two_sprites)) = ''scale''"
  by (simp add: keydown_Space two_sprites_facts TransformModes_def)

text \<open>
  Claim C6. In every state the listeners can reach (\<^const>\<open>editor_inv\<close> holds at startup
  and after every event), the invariant of the selection holds, and selecting a tracked
  sprite, deselecting, deleting and cycling with Tab end in such a state again, as does
  any run of events. Selecting \<open>A\<close> and then \<open>B\<close> leaves one outline in the scene, the
  one of \<open>B\<close>.
\<close>

theorem selection_inv_preserved:
  assumes "editor_inv s"
  shows "selection_inv s \<and>
    (\<forall>b \<in> set (Sprites s).
       \<exists>s'. SelectSprite b s = Inr s' \<and> editor_inv s' \<and> selection_inv s' \<and>
            SelectedSprite s' = Some b) \<and>
    editor_inv (DeselectCurrentSprite s) \<and> selection_inv (DeselectCurrentSprite s) \<and>
    SelectedSprite (DeselectCurrentSprite s) = None \<and>
    editor_inv (DeleteSelectedSprite s) \<and> selection_inv (DeleteSelectedSprite s) \<and>
    (\<exists>s'. keydown ''Tab'' confirmed s = Inr s' \<and> editor_inv s' \<and> selection_inv s') \<and>
    (\<exists>s'. run evs s = Inr s' \<and> editor_inv s' \<and> selection_inv s') \<and>
    (\<exists>s'. run evs (startup innerWidth innerHeight) = Inr s' \<and> selection_inv s') \<and>
    (\<forall>A \<in> set (Sprites s). \<forall>B \<in> set (Sprites s).
       \<exists>s1 s2. SelectSprite A s = Inr s1 \<and> SelectSprite B s1 = Inr s2 \<and>
         length (scene_outlines s2) = 1 \<and> scene_outlines s2 = outlines s2 B \<and>
         (A \<noteq> B \<longrightarrow> outlines s2 A = []))"
proof (intro conjI ballI)
  show "selection_inv s" using assms by (rule inv_selection_inv)
  show "\<exists>s'. SelectSprite b s = Inr s' \<and> editor_inv s' \<and> selection_inv s' \<and>
            SelectedSprite s' = Some b" if "b \<in> set (Sprites s)" for b
    using SelectSprite_inv [OF assms that] inv_selection_inv by blast
  show "editor_inv (DeselectCurrentSprite s)" using assms by (rule Deselect_inv)
  then show "selection_inv (DeselectCurrentSprite s)" by (rule inv_selection_inv)
  show "SelectedSprite (DeselectCurrentSprite s) = None" by (rule Deselect_facts)
  show "editor_inv (DeleteSelectedSprite s)" using assms by (rule Delete_inv)
  then show "selection_inv (DeleteSelectedSprite s)" by (rule inv_selection_inv)
  show "\<exists>s'. keydown ''Tab'' confirmed s = Inr s' \<and> editor_inv s' \<and> selection_inv s'"
    using keydown_inv [OF assms, of "''Tab''" confirmed] inv_selection_inv by blast
  show "\<exists>s'. run evs s = Inr s' \<and> editor_inv s' \<and> selection_inv s'"
    using run_step [OF assms, of evs] inv_selection_inv by blast
  show "\<exists>s'. run evs (startup innerWidth innerHeight) = Inr s' \<and> selection_inv s'"
    using run_step [OF startup_inv, of evs innerWidth innerHeight] inv_selection_inv by blast
  show "\<exists>s1 s2. SelectSprite A s = Inr s1 \<and> SelectSprite B s1 = Inr s2 \<and>
         length (scene_outlines s2) = 1 \<and> scene_outlines s2 = outlines s2 B \<and>
         (A \<noteq> B \<longrightarrow> outlines s2 A = [])"
    if A: "A \<in> set (Sprites s)" and B: "B \<in> set (Sprites s)" for A B
  proof -
    from SelectSprite_inv [OF assms A] obtain s1 where
      s1: "SelectSprite A s = Inr s1" "editor_inv s1" "Sprites s1 = Sprites s" by blast
    from B s1(3) have "B \<in> set (Sprites s1)" by simp
    from SelectSprite_inv [OF s1(2) this] obtain s2 where
      s2: "SelectSprite B s1 = Inr s2" "editor_inv s2" "SelectedSprite s2 = Some B"
        "Sprites s2 = Sprites s1" by blast
    from scene_outlines_Selected [OF s2(2,3)]
    have o: "scene_outlines s2 = outlines s2 B" "length (scene_outlines s2) = 1" by simp_all
    from A s1(3) s2(4) have "A \<in> set (Sprites s2)" by simp
    from inv_sprite [OF s2(2) this] s2(3) have "A \<noteq> B \<longrightarrow> outlines s2 A = []"
      by (simp add: outline_ok_def)
    with s1(1) s2(1) o show ?thesis by blast
  qed
qed

theorem selection_inv_preserved_witness:
  "editor_inv two_sprites \<and> selection_inv two_sprites \<and>
   (\<exists>s'. SelectSprite 4 two_sprites = Inr s' \<and> selection_inv s' \<and> SelectedSprite s' = Some 4) \<and>
   selection_inv (DeselectCurrentSprite two_sprites) \<and>
   selection_inv (DeleteSelectedSprite two_sprites) \<and>
   (\<exists>s'. keydown ''Tab'' False two_sprites = Inr s' \<and> selection_inv s') \<and>
   (\<exists>s1 s2. SelectSprite 4 two_sprites = Inr s1 \<and> SelectSprite 8 s1 = Inr s2 \<and>
      length (scene_outlines s2) = 1 \<and> scene_outlines s2 = outlines s2 8 \<and> outlines s2 4 = [])"
  using selection_inv_preserved [OF two_sprites_inv, of False "[]" 800 600]
  by (simp add: two_sprites_inv two_sprites_facts) blast


text \<open>
  Claim C7, as amended. Tab does nothing when no sprite is tracked; with nothing
  selected it selects the first tracked sprite; with the sprite at index \<open>i\<close> selected it
  selects the one at index \<open>(i + 1) mod n\<close>. So with \<open>n\<close> sprites, \<open>n\<close> presses starting
  from the first sprite selected come back to it, and starting from nothing selected it
  takes \<open>n + 1\<close> presses to be at the first sprite for the second time.
\<close>

theorem Tab_cycles:
  assumes "editor_inv s"
  shows "(Sprites s = [] \<longrightarrow> keydown ''Tab'' c s = Inr s) \<and>
    (Sprites s \<noteq> [] \<and> SelectedSprite s = None \<longrightarrow>
       (\<exists>s'. keydown ''Tab'' c s = Inr s' \<and> Sprites s' = Sprites s \<and>
             SelectedSprite s' = Some (Sprites s ! 0))) \<and>
    (i < length (Sprites s) \<and> SelectedSprite s = Some (Sprites s ! i) \<longrightarrow>
       (\<exists>s'. keydown ''Tab'' c s = Inr s' \<and> Sprites s' = Sprites s \<and>
             SelectedSprite s' = Some (Sprites s ! ((i + 1) mod length (Sprites s))))) \<and>
    (Sprites s \<noteq> [] \<and> SelectedSprite s = Some (Sprites s ! 0) \<longrightarrow>
       (\<exists>s'. run (replicate (length (Sprites s)) (KeyDown ''Tab'' c)) s = Inr s' \<and>
             SelectedSprite s' = Some (Sprites s ! 0))) \<and>
    (Sprites s \<noteq> [] \<and> SelectedSprite s = None \<longrightarrow>
       (\<exists>s'. run (replicate (Suc (length (Sprites s))) (KeyDown ''Tab'' c)) s = Inr s' \<and>
             SelectedSprite s' = Some (Sprites s ! 0)))"
proof (intro conjI impI)
  show "keydown ''Tab'' c s = Inr s" if "Sprites s = []"
    using that by (simp add: keydown_Tab)
  show "\<exists>s'. keydown ''Tab'' c s = Inr s' \<and> Sprites s' = Sprites s \<and>
             SelectedSprite s' = Some (Sprites s ! 0)"
    if h: "Sprites s \<noteq> [] \<and> SelectedSprite s = None"
  proof -
    from h have a: "Sprites s \<noteq> []" "SelectedSprite s = None" by simp_all
    from Tab_from_Idle [OF assms a, of c] obtain s' where
      "keydown ''Tab'' c s = Inr s'" "Sprites s' = Sprites s"
      "SelectedSprite s' = Some (Sprites s ! 0)" by (elim exE conjE)
    then show ?thesis by (intro exI conjI)
  qed
  show "\<exists>s'. keydown ''Tab'' c s = Inr s' \<and> Sprites s' = Sprites s \<and>
             SelectedSprite s' = Some (Sprites s ! ((i + 1) mod length (Sprites s)))"
    if h: "i < length (Sprites s) \<and> SelectedSprite s = Some (Sprites s ! i)"
  proof -
    from h have a: "i < length (Sprites s)" "SelectedSprite s = Some (Sprites s ! i)"
      by simp_all
    from Tab_from_index [OF assms a, of c] obtain s' where
      "keydown ''Tab'' c s = Inr s'" "Sprites s' = Sprites s"
      "SelectedSprite s' = Some (Sprites s ! ((i + 1) mod length (Sprites s)))"
      by (elim exE conjE)
    then show ?thesis by (intro exI conjI)
  qed
  show "\<exists>s'. run (replicate (length (Sprites s)) (KeyDown ''Tab'' c)) s = Inr s' \<and>
             SelectedSprite s' = Some (Sprites s ! 0)"
    if h: "Sprites s \<noteq> [] \<and> SelectedSprite s = Some (Sprites s ! 0)"
  proof -
    from h have a: "0 < length (Sprites s)" "SelectedSprite s = Some (Sprites s ! 0)"
      by simp_all
    from Tabs_from_index [OF assms a, of "length (Sprites s)" c] obtain s' where
      "run (replicate (length (Sprites s)) (KeyDown ''Tab'' c)) s = Inr s'"
      "SelectedSprite s' = Some (Sprites s ! ((0 + length (Sprites s)) mod length (Sprites s)))"
      by (elim exE conjE)
    then have "run (replicate (length (Sprites s)) (KeyDown ''Tab'' c)) s = Inr s'"
      "SelectedSprite s' = Some (Sprites s ! 0)" by simp_all
    then show ?thesis by (intro exI conjI)
  qed
  show "\<exists>s'. run (replicate (Suc (length (Sprites s))) (KeyDown ''Tab'' c)) s = Inr s' \<and>
             SelectedSprite s' = Some (Sprites s ! 0)"
    if h: "Sprites s \<noteq> [] \<and> SelectedSprite s = None"
  proof -
    from h have a: "Sprites s \<noteq> []" "SelectedSprite s = None" by simp_all
    from Tabs_from_Idle [OF assms a, of "length (Sprites s)" c] obtain s' where
      "run (replicate (Suc (length (Sprites s))) (KeyDown ''Tab'' c)) s = Inr s'"
      "SelectedSprite s' = Some (Sprites s ! (length (Sprites s) mod length (Sprites s)))"
      by (elim exE conjE)
    then have "run (replicate (Suc (length (Sprites s))) (KeyDown ''Tab'' c)) s = Inr s'"
      "SelectedSprite s' = Some (Sprites s ! 0)" by simp_all
    then show ?thesis by (intro exI conjI)
  qed
qed

theorem Tab_cycles_witness:
  "editor_inv three_sprites \<and> Sprites three_sprites = [4, 8, 12] \<and>
   SelectedSprite three_sprites = None \<and>
   (\<exists>s'. keydown ''Tab'' False three_sprites = Inr s' \<and> SelectedSprite s' = Some 4) \<and>
   (\<exists>s'. run (replicate (Suc (length (Sprites three_sprites))) (KeyDown ''Tab'' False))
           three_sprites = Inr s' \<and>
         SelectedSprite s' = Some 4) \<and>
   Sprites two_sprites = [4, 8] \<and> SelectedSprite two_sprites = Some 8 \<and>
   (\<exists>s'. keydown ''Tab'' False two_sprites = Inr s' \<and> SelectedSprite s' = Some 4)"
proof -
  have a: "Sprites three_sprites \<noteq> [] \<and> SelectedSprite three_sprites = None"
    by (simp add: three_sprites_facts)
  have b: "1 < length (Sprites two_sprites) \<and>
           SelectedSprite two_sprites = Some (Sprites two_sprites ! 1)"
    by (simp add: two_sprites_facts)
  from Tab_cycles [OF three_sprites_inv, of False 0, THEN conjunct2, THEN conjunct1,
      rule_format, OF a]
  obtain s1 where "keydown ''Tab'' False three_sprites = Inr s1"
    "SelectedSprite s1 = Some (Sprites three_sprites ! 0)" by (elim exE conjE)
  then have 1: "\<exists>s'. keydown ''Tab'' False three_sprites = Inr s' \<and> SelectedSprite s' = Some 4"
    by (simp add: three_sprites_facts)
  from Tab_cycles [OF three_sprites_inv, of False 0, THEN conjunct2, THEN conjunct2,
      THEN conjunct2, THEN conjunct2, rule_format, OF a]
  obtain s2 where
    "run (replicate (Suc (length (Sprites three_sprites))) (KeyDown ''Tab'' False))
       three_sprites = Inr s2"
    "SelectedSprite s2 = Some (Sprites three_sprites ! 0)" by (elim exE conjE)
  then have 2: "\<exists>s'. run (replicate (Suc (length (Sprites three_sprites))) (KeyDown ''Tab'' False))
           three_sprites = Inr s' \<and> SelectedSprite s' = Some 4"
    by (simp add: three_sprites_facts del: run.simps replicate.simps)
  from Tab_cycles [OF two_sprites_inv, of False 1, THEN conjunct2, THEN conjunct2,
      THEN conjunct1, rule_format, OF b]
  obtain s3 where "keydown ''Tab'' False two_sprites = Inr s3"
    "SelectedSprite s3 = Some (Sprites two_sprites ! ((1 + 1) mod length (Sprites two_sprites)))"
    by (elim exE conjE)
  then have 3: "\<exists>s'. keydown ''Tab'' False two_sprites = Inr s' \<and> SelectedSprite s' = Some 4"
    by (simp add: two_sprites_facts)
  from 1 2 3 show ?thesis
    by (simp only: three_sprites_inv three_sprites_facts two_sprites_facts simp_thms)
qed

text \<open>
  The claim as it was stated counts \<open>n\<close> presses from nothing selected: with three
  sprites 4, 8 and 12 and nothing selected, three presses of Tab end at sprite 12, the
  last one, not at sprite 4.
\<close>

theorem Tab_cycle_counterexample:
  "Sprites three_sprites = [4, 8, 12] \<and> SelectedSprite three_sprites = None \<and>
   \<not> isl (run (replicate (length (Sprites three_sprites)) (KeyDown ''Tab'' False)) three_sprites) \<and>
   SelectedSprite
     (projr (run (replicate (length (Sprites three_sprites)) (KeyDown ''Tab'' False)) three_sprites))
     = Some 12 \<and>
   SelectedSprite
     (projr (run (replicate (length (Sprites three_sprites)) (KeyDown ''Tab'' False)) three_sprites))
     \<noteq> Some (Sprites three_sprites ! 0)"
proof -
  have l: "length (Sprites three_sprites) = Suc 2" by (simp add: three_sprites_facts)
  have "Sprites three_sprites \<noteq> []" "SelectedSprite three_sprites = None"
    by (simp_all add: three_sprites_facts)
  from Tabs_from_Idle [OF three_sprites_inv this, of 2 False] obtain s' where
    "run (replicate (Suc 2) (KeyDown ''Tab'' False)) three_sprites = Inr s'"
    "SelectedSprite s' = Some (Sprites three_sprites ! (2 mod length (Sprites three_sprites)))"
    by (elim exE conjE)
  then have "run (replicate (length (Sprites three_sprites)) (KeyDown ''Tab'' False)) three_sprites = Inr s'"
    "SelectedSprite s' = Some 12"
    by (simp_all only: l) (simp add: three_sprites_facts)
  then show ?thesis by (simp add: three_sprites_facts del: run.simps replicate.simps)
qed

text \<open>
  Claim C8. With a sprite selected, \<^const>\<open>DeleteSelectedSprite\<close> takes its outline off,
  takes it out of the scene and out of \<^const>\<open>Sprites\<close>, detaches the gizmo and leaves
  nothing selected. Whatever events follow (keys, Tab included, buttons, pointer and
  wheel events), they are all handled and the deleted sprite is never tracked, in the
  scene, selected or attached to the gizmo again; and the same holds when clicks on the
  canvas are among what follows, as long as the ray caster returns only objects that lie
  below a child of the scene, as the library's does. With nothing selected the function
  changes nothing.
\<close>

theorem Delete_removes_for_good:
  assumes "editor_inv s"
  shows "(SelectedSprite s = None \<longrightarrow> DeleteSelectedSprite s = s) \<and>
    (SelectedSprite s = Some a \<longrightarrow>
       outlines (DeleteSelectedSprite s) a = [] \<and>
       a \<notin> set (children (DeleteSelectedSprite s) Scene) \<and>
       parent (DeleteSelectedSprite s) a = None \<and>
       a \<notin> set (Sprites (DeleteSelectedSprite s)) \<and>
       SelectedSprite (DeleteSelectedSprite s) = None \<and>
       TransformControls_object (DeleteSelectedSprite s) = None \<and>
       (\<exists>s'. run evs (DeleteSelectedSprite s) = Inr s' \<and>
             a \<notin> set (Sprites s') \<and> a \<notin> set (children s' Scene) \<and>
             SelectedSprite s' \<noteq> Some a \<and> TransformControls_object s' \<noteq> Some a) \<and>
       ((\<forall>i \<in> set ins. scene_input i) \<longrightarrow>
        (\<exists>s'. session ins (DeleteSelectedSprite s) = Some (Inr s') \<and>
              a \<notin> set (Sprites s') \<and> a \<notin> set (children s' Scene) \<and>
              SelectedSprite s' \<noteq> Some a \<and> TransformControls_object s' \<noteq> Some a)))"
proof (intro conjI impI)
  show "DeleteSelectedSprite s = s" if "SelectedSprite s = None"
    using that by (rule Delete_Idle)
next
  assume sel: "SelectedSprite s = Some a"
  note f = Delete_Selected_facts [OF assms sel]
  show "outlines (DeleteSelectedSprite s) a = []" by (rule f)
  show "a \<notin> set (children (DeleteSelectedSprite s) Scene)" by (rule f)
  show "parent (DeleteSelectedSprite s) a = None" by (rule f)
  show "a \<notin> set (Sprites (DeleteSelectedSprite s))" by (rule f)
  show "SelectedSprite (DeleteSelectedSprite s) = None" by (rule f)
  show "TransformControls_object (DeleteSelectedSprite s) = None" by (rule f)
  from never_tracked_again [OF Delete_inv [OF assms] f(3) f(7) f(8), of evs]
  obtain s' where "run evs (DeleteSelectedSprite s) = Inr s'"
    "a \<notin> set (Sprites s')" "a \<notin> set (children s' Scene)"
    "SelectedSprite s' \<noteq> Some a" "TransformControls_object s' \<noteq> Some a"
    by (elim exE conjE)
  then show "\<exists>s'. run evs (DeleteSelectedSprite s) = Inr s' \<and>
             a \<notin> set (Sprites s') \<and> a \<notin> set (children s' Scene) \<and>
             SelectedSprite s' \<noteq> Some a \<and> TransformControls_object s' \<noteq> Some a"
    by (intro exI conjI)
next
  assume sel: "SelectedSprite s = Some a" and ins: "\<forall>i \<in> set ins. scene_input i"
  note f = Delete_Selected_facts [OF assms sel]
  from never_picked_again [OF Delete_inv [OF assms] f(3) f(7) f(8) ins]
  obtain s' where "session ins (DeleteSelectedSprite s) = Some (Inr s')"
    "a \<notin> set (Sprites s')" "a \<notin> set (children s' Scene)"
    "SelectedSprite s' \<noteq> Some a" "TransformControls_object s' \<noteq> Some a"
    by (elim exE conjE)
  then show "\<exists>s'. session ins (DeleteSelectedSprite s) = Some (Inr s') \<and>
              a \<notin> set (Sprites s') \<and> a \<notin> set (children s' Scene) \<and>
              SelectedSprite s' \<noteq> Some a \<and> TransformControls_object s' \<noteq> Some a"
    by (intro exI conjI)
qed

theorem Delete_removes_for_good_witness:
  "editor_inv two_sprites \<and> SelectedSprite two_sprites = Some 8 \<and>
   outlines (DeleteSelectedSprite two_sprites) 8 = [] \<and>
   8 \<notin> set (children (DeleteSelectedSprite two_sprites) Scene) \<and>
   8 \<notin> set (Sprites (DeleteSelectedSprite two_sprites)) \<and>
   SelectedSprite (DeleteSelectedSprite two_sprites) = None \<and>
   (\<exists>s'. run [KeyDown ''Tab'' False, AddSpriteBtn, KeyDown ''Tab'' False]
           (DeleteSelectedSprite two_sprites) = Inr s' \<and>
         8 \<notin> set (Sprites s') \<and> SelectedSprite s' \<noteq> Some 8) \<and>
   under_scene (ray_through [9, 5]) \<and>
   (\<exists>s'. session [Click (ray_through [9, 5]) 0 400 300]
           (DeleteSelectedSprite two_sprites) = Some (Inr s') \<and>
         SelectedSprite s' = Some 4 \<and> 8 \<notin> set (Sprites s') \<and>
         8 \<notin> set (children s' Scene) \<and> TransformControls_object s' \<noteq> Some 8) \<and>
   editor_inv three_sprites \<and> SelectedSprite three_sprites = None \<and>
   DeleteSelectedSprite three_sprites = three_sprites"
proof -
  have a: "SelectedSprite two_sprites = Some 8" by (simp add: two_sprites_facts)
  have b: "SelectedSprite three_sprites = None" by (simp add: three_sprites_facts)
  have u: "under_scene (ray_through [9, 5])" by (rule under_scene_ray_through)
  then have i: "\<forall>i \<in> set [Click (ray_through [9, 5]) 0 400 300]. scene_input i" by simp
  note T = Delete_removes_for_good [OF two_sprites_inv,
      of 8 "[KeyDown ''Tab'' False, AddSpriteBtn, KeyDown ''Tab'' False]"
         "[Click (ray_through [9, 5]) 0 400 300]",
      THEN conjunct2, rule_format, OF a]
  from T obtain s' where
    "run [KeyDown ''Tab'' False, AddSpriteBtn, KeyDown ''Tab'' False]
           (DeleteSelectedSprite two_sprites) = Inr s'"
    "8 \<notin> set (Sprites s')" "SelectedSprite s' \<noteq> Some 8"
    by (elim exE conjE)
  then have 1: "\<exists>s'. run [KeyDown ''Tab'' False, AddSpriteBtn, KeyDown ''Tab'' False]
           (DeleteSelectedSprite two_sprites) = Inr s' \<and>
         8 \<notin> set (Sprites s') \<and> SelectedSprite s' \<noteq> Some 8"
    by (intro exI conjI)
  from T have "(\<forall>i \<in> set [Click (ray_through [9, 5]) 0 400 300]. scene_input i) \<longrightarrow>
        (\<exists>s'. session [Click (ray_through [9, 5]) 0 400 300] (DeleteSelectedSprite two_sprites) =
                Some (Inr s') \<and>
              8 \<notin> set (Sprites s') \<and> 8 \<notin> set (children s' Scene) \<and>
              SelectedSprite s' \<noteq> Some 8 \<and> TransformControls_object s' \<noteq> Some 8)"
    by (elim conjE)
  with i obtain t where t:
    "session [Click (ray_through [9, 5]) 0 400 300] (DeleteSelectedSprite two_sprites) =
       Some (Inr t)"
    "8 \<notin> set (Sprites t)" "8 \<notin> set (children t Scene)"
    "TransformControls_object t \<noteq> Some 8"
    by (elim impE exE conjE)
  from click_after_delete obtain t' where t':
    "click (ray_through [9, 5]) 0 400 300 (DeleteSelectedSprite two_sprites) = Some (Inr t')"
    "SelectedSprite t' = Some 4" by (elim exE conjE)
  from t(1) t'(1) have "t' = t" by simp
  with t'(2) have "SelectedSprite t = Some 4" by simp
  with t have 3: "\<exists>s'. session [Click (ray_through [9, 5]) 0 400 300]
           (DeleteSelectedSprite two_sprites) = Some (Inr s') \<and>
         SelectedSprite s' = Some 4 \<and> 8 \<notin> set (Sprites s') \<and>
         8 \<notin> set (children s' Scene) \<and> TransformControls_object s' \<noteq> Some 8"
    by (intro exI conjI)
  from Delete_removes_for_good [OF three_sprites_inv, of 0 "[]" "[]",
      THEN conjunct1, rule_format, OF b]
  have 2: "DeleteSelectedSprite three_sprites = three_sprites" .
  from T 1 2 3 u a b two_sprites_inv three_sprites_inv show ?thesis
    by (elim conjE) (intro conjI; assumption)
qed

text \<open>
  Claim C9. A click that is not the secondary button, received while no gizmo drag is in
  progress, casts the ray. If the parent chains of the scene graph are finite and no
  object hit has a sprite group as its top-level parent, the listener returns without an
  exception, and what it did is \<^const>\<open>DeselectCurrentSprite\<close>: nothing is selected
  afterwards, whatever was selected before.
\<close>

theorem click_on_nothing_deselects:
  fixes depth :: "obj \<Rightarrow> nat"
  assumes "button \<noteq> 2" "\<not> IsTransformActive s"
    and "\<forall>p q. parent s p = Some q \<longrightarrow> depth q < depth p"
    and "\<forall>h \<in> set (intersectObjects
            (s\<lparr>Mouse := ((clientX / WINDOW_WIDTH s) * 2 - 1,
                          - (clientY / WINDOW_HEIGHT s) * 2 + 1)\<rparr>)).
           \<forall>p. top_level_parent (parent s) h = Some p \<longrightarrow> \<not> isSprite s p"
  shows "\<exists>s'. click intersectObjects button clientX clientY s = Some (Inr s') \<and>
           s' = DeselectCurrentSprite
                  (s\<lparr>Mouse := ((clientX / WINDOW_WIDTH s) * 2 - 1,
                                - (clientY / WINDOW_HEIGHT s) * 2 + 1)\<rparr>) \<and>
           SelectedSprite s' = None \<and>
           (editor_inv s \<longrightarrow> editor_inv s' \<and> TransformControls_object s' = None)"
proof -
  define s1 where "s1 = s\<lparr>Mouse := ((clientX / WINDOW_WIDTH s) * 2 - 1,
                          - (clientY / WINDOW_HEIGHT s) * 2 + 1)\<rparr>"
  have "\<exists>p. top_level_parent (parent s) h = Some p \<and> \<not> isSprite s p"
    if "h \<in> set (intersectObjects s1)" for h
  proof -
    from top_level_parent_terminates [OF assms(3), of h] obtain r where
      r: "top_level_parent (parent s) h = Some r" by blast
    with assms(4) that have "\<not> isSprite s r" unfolding s1_def by blast
    with r show ?thesis by blast
  qed
  then have "\<forall>h \<in> set (intersectObjects s1).
      \<exists>p. top_level_parent (parent s) h = Some p \<and> \<not> isSprite s p" by blast
  from click_no_sprite [where rc = intersectObjects and x = clientX and y = clientY,
      OF assms(1,2) this [unfolded s1_def]]
  have c: "click intersectObjects button clientX clientY s = Some (Inr (DeselectCurrentSprite s1))"
    unfolding s1_def .
  have "editor_inv s \<longrightarrow> editor_inv (DeselectCurrentSprite s1) \<and>
          TransformControls_object (DeselectCurrentSprite s1) = None"
  proof
    assume "editor_inv s"
    then have "editor_inv s1" unfolding s1_def by (rule Mouse_inv)
    then have i: "editor_inv (DeselectCurrentSprite s1)" by (rule Deselect_inv)
    from inv_gizmo [OF i] have "TransformControls_object (DeselectCurrentSprite s1) = None"
      by (simp add: Deselect_facts)
    with i show "editor_inv (DeselectCurrentSprite s1) \<and>
          TransformControls_object (DeselectCurrentSprite s1) = None" ..
  qed
  with c show ?thesis unfolding s1_def by (simp add: Deselect_facts)
qed

theorem click_on_nothing_deselects_witness:
  "\<not> IsTransformActive two_sprites \<and> SelectedSprite two_sprites = Some 8 \<and>
   top_level_parent (parent two_sprites) GridHelper = Some GridHelper \<and>
   \<not> isSprite two_sprites GridHelper \<and>
   (\<exists>s'. click (\<lambda>_. [GridHelper]) 0 400 300 two_sprites = Some (Inr s') \<and>
         SelectedSprite s' = None \<and> TransformControls_object s' = None)"
proof -
  define depth :: "obj \<Rightarrow> nat"
    where "depth = (\<lambda>p. if p = Scene then 0 else if p \<in> {1, 2, 3, 4, 8} then 1 else 2)"
  have par: "parent two_sprites =
     (\<lambda>_. None)(GridHelper := Some Scene, AxesHelper := Some Scene,
        TransformControls := Some Scene, 4 := Some Scene, 5 := Some 4, 6 := Some 4,
        8 := Some Scene, 9 := Some 8, 10 := Some 8, 11 := Some 8)"
    by (simp add: two_sprites_def)
  have forest: "\<forall>p q. parent two_sprites p = Some q \<longrightarrow> depth q < depth p"
    unfolding par by (simp add: depth_def)
  have top: "top_level_parent (parent two_sprites) GridHelper = Some GridHelper"
    by (subst top_level_parent.simps) (simp add: par)
  have ns: "\<not> isSprite two_sprites GridHelper"
    by (simp add: two_sprites_def)
  have hits: "\<forall>h \<in> set ((\<lambda>_. [GridHelper])
        (two_sprites\<lparr>Mouse := ((400 / WINDOW_WIDTH two_sprites) * 2 - 1,
                                - (300 / WINDOW_HEIGHT two_sprites) * 2 + 1)\<rparr>)).
      \<forall>p. top_level_parent (parent two_sprites) h = Some p \<longrightarrow> \<not> isSprite two_sprites p"
    using top ns by simp
  have b: "(0::int) \<noteq> 2" by simp
  have a: "\<not> IsTransformActive two_sprites" by (simp add: two_sprites_facts)
  from click_on_nothing_deselects [where intersectObjects = "\<lambda>_. [GridHelper]"
      and clientX = 400 and clientY = 300, OF b a forest hits]
  obtain s' where "click (\<lambda>_. [GridHelper]) 0 400 300 two_sprites = Some (Inr s')"
    "SelectedSprite s' = None"
    "editor_inv two_sprites \<longrightarrow> editor_inv s' \<and> TransformControls_object s' = None"
    by (elim exE conjE)
  with two_sprites_inv have "\<exists>s'. click (\<lambda>_. [GridHelper]) 0 400 300 two_sprites = Some (Inr s') \<and>
         SelectedSprite s' = None \<and> TransformControls_object s' = None"
    by (intro exI [of _ s']) simp
  with a top ns show ?thesis by (simp add: two_sprites_facts)
qed

text \<open>
  Claim C10. \<^const>\<open>WINDOW_WIDTH\<close> and \<^const>\<open>WINDOW_HEIGHT\<close> are what the window measured
  at startup, whatever events came since, resizes included: the resize listener writes
  the camera's aspect and the renderer's size and leaves them alone. A click that casts
  the ray asks the ray caster with, and stores, the pointer position divided by those
  startup dimensions.
\<close>

theorem picking_uses_startup_dimensions:
  assumes "run evs (startup innerWidth innerHeight) = Inr s"
    and "button \<noteq> 2" "\<not> IsTransformActive s"
    and "click intersectObjects button clientX clientY s = Some (Inr s')"
  shows "WINDOW_WIDTH s = innerWidth \<and> WINDOW_HEIGHT s = innerHeight \<and>
     Mouse s' = ((clientX / innerWidth) * 2 - 1, - (clientY / innerHeight) * 2 + 1) \<and>
     click intersectObjects button clientX clientY s =
       click (\<lambda>_. intersectObjects
                (s\<lparr>Mouse := ((clientX / innerWidth) * 2 - 1,
                              - (clientY / innerHeight) * 2 + 1)\<rparr>))
         button clientX clientY s \<and>
     Camera_aspect (resize NewWidth NewHeight s) = NewWidth / NewHeight \<and>
     Renderer_size (resize NewWidth NewHeight s) = (NewWidth, NewHeight) \<and>
     WINDOW_WIDTH (resize NewWidth NewHeight s) = innerWidth \<and>
     WINDOW_HEIGHT (resize NewWidth NewHeight s) = innerHeight"
proof -
  from run_step [OF startup_inv, of evs innerWidth innerHeight] assms(1)
  have "step_ok (startup innerWidth innerHeight) s" by simp
  then have w: "WINDOW_WIDTH s = innerWidth" "WINDOW_HEIGHT s = innerHeight"
    by (simp_all add: step_ok_def startup_def UpdateCameraPosition_def)
  from click_Mouse [OF assms(2,3,4)]
  have m: "Mouse s' = ((clientX / innerWidth) * 2 - 1, - (clientY / innerHeight) * 2 + 1)"
    unfolding w .
  have c: "click intersectObjects button clientX clientY s =
       click (\<lambda>_. intersectObjects
                (s\<lparr>Mouse := ((clientX / innerWidth) * 2 - 1,
                              - (clientY / innerHeight) * 2 + 1)\<rparr>))
         button clientX clientY s"
    using click_rc_at_ndc [of intersectObjects button clientX clientY s] unfolding w .
  have r: "Camera_aspect (resize NewWidth NewHeight s) = NewWidth / NewHeight"
    "Renderer_size (resize NewWidth NewHeight s) = (NewWidth, NewHeight)"
    "WINDOW_WIDTH (resize NewWidth NewHeight s) = innerWidth"
    "WINDOW_HEIGHT (resize NewWidth NewHeight s) = innerHeight"
    using w by (simp_all add: resize_def)
  from w m c r show ?thesis by (intro conjI)
qed

theorem picking_uses_startup_dimensions_witness:
  "run [Resize 1024 768] (startup 800 600) = Inr (resize 1024 768 (startup 800 600)) \<and>
   Renderer_size (resize 1024 768 (startup 800 600)) = (1024, 768) \<and>
   \<not> IsTransformActive (resize 1024 768 (startup 800 600)) \<and>
   click (\<lambda>_. []) 0 400 300 (resize 1024 768 (startup 800 600)) =
     Some (Inr ((resize 1024 768 (startup 800 600))\<lparr>Mouse := (0, 0)\<rparr>)) \<and>
   Mouse ((resize 1024 768 (startup 800 600))\<lparr>Mouse := (0, 0)\<rparr>) =
     ((400 / 800) * 2 - 1, - (300 / 600) * 2 + 1)"
proof -
  define s where "s = resize 1024 768 (startup 800 600)"
  have r: "run [Resize 1024 768] (startup 800 600) = Inr s" by (simp add: s_def)
  have a: "\<not> IsTransformActive s" "SelectedSprite s = None"
    "WINDOW_WIDTH s = 800" "WINDOW_HEIGHT s = 600"
    by (simp_all add: s_def resize_def startup_def UpdateCameraPosition_def)
  have b: "(0::int) \<noteq> 2" by simp
  have "click (\<lambda>_. []) 0 400 300 s =
     Some (Inr (DeselectCurrentSprite
        (s\<lparr>Mouse := ((400 / WINDOW_WIDTH s) * 2 - 1, - (300 / WINDOW_HEIGHT s) * 2 + 1)\<rparr>)))"
    by (rule click_no_sprite [OF b a(1)]) simp
  then have c: "click (\<lambda>_. []) 0 400 300 s = Some (Inr (s\<lparr>Mouse := (0, 0)\<rparr>))"
    using a by (simp add: Deselect_Idle)
  note T = picking_uses_startup_dimensions [OF r b a(1) c, of 1024 768]
  from T [THEN conjunct2, THEN conjunct2, THEN conjunct1]
  have m: "Mouse (s\<lparr>Mouse := (0, 0)\<rparr>) = ((400 / 800) * 2 - 1, - (300 / 600) * 2 + 1)" .
  have z: "Renderer_size s = (1024, 768)" by (simp add: s_def resize_def)
  from r z a(1) c m show ?thesis unfolding s_def by (intro conjI)
qed

end
